theory Spec2Isabelle
  imports Complex_Main
begin

section \<open>Easing and interpolation (src/src/App.tsx, lines 25-30)\<close>

text \<open>
  JavaScript numbers are modelled as \<^typ>\<open>real\<close>: the development is about the control
  structure of the animation core (latches, windows, pools), and every constant and
  comparison is taken over as written.  \<open>Math.min\<close>, \<open>Math.max\<close>, \<open>Math.abs\<close> and
  \<open>Math.pow(x, 3)\<close> are \<^const>\<open>min\<close>, \<^const>\<open>max\<close>, \<^const>\<open>abs\<close> and \<open>x ^ 3\<close>.
\<close>

definition clamp :: "real \<Rightarrow> real \<Rightarrow> real \<Rightarrow> real" where
  "clamp v lo hi = min hi (max lo v)"

definition lerp :: "real \<Rightarrow> real \<Rightarrow> real \<Rightarrow> real" where
  "lerp a b t = a + (b - a) * t"

definition easeOutCubic :: "real \<Rightarrow> real" where
  "easeOutCubic t = 1 - (1 - t) ^ 3"

section \<open>Scene timeline controller (src/src/App.tsx, AnimatedScene)\<close>

subsection \<open>Phase windows (lines 47-83)\<close>

definition CAKE_START_Y :: real where "CAKE_START_Y = 10"
definition CAKE_END_Y :: real where "CAKE_END_Y = 0"
definition CAKE_DESCENT_DURATION :: real where "CAKE_DESCENT_DURATION = 3"

definition TABLE_START_Z :: real where "TABLE_START_Z = 30"
definition TABLE_END_Z :: real where "TABLE_END_Z = 0"
definition TABLE_SLIDE_DURATION :: real where "TABLE_SLIDE_DURATION = 7 / 10"
definition TABLE_SLIDE_START :: real where
  "TABLE_SLIDE_START = CAKE_DESCENT_DURATION - TABLE_SLIDE_DURATION - 1 / 10"

definition CANDLE_START_Y :: real where "CANDLE_START_Y = 5"
definition CANDLE_END_Y :: real where "CANDLE_END_Y = 0"
definition CANDLE_DROP_DURATION :: real where "CANDLE_DROP_DURATION = 12 / 10"
definition CANDLE_DROP_START :: real where
  "CANDLE_DROP_START =
     max CAKE_DESCENT_DURATION (TABLE_SLIDE_START + TABLE_SLIDE_DURATION) + 1"

definition totalAnimationTime :: real where
  "totalAnimationTime = CANDLE_DROP_START + CANDLE_DROP_DURATION"

definition BACKGROUND_FADE_DURATION :: real where "BACKGROUND_FADE_DURATION = 1"
definition BACKGROUND_FADE_OFFSET :: real where "BACKGROUND_FADE_OFFSET = 0"
definition BACKGROUND_FADE_END :: real where
  "BACKGROUND_FADE_END =
     max (CANDLE_DROP_START - BACKGROUND_FADE_OFFSET) BACKGROUND_FADE_DURATION"
definition BACKGROUND_FADE_START :: real where
  "BACKGROUND_FADE_START = max (BACKGROUND_FADE_END - BACKGROUND_FADE_DURATION) 0"

lemmas timeline_consts =
  CAKE_START_Y_def CAKE_END_Y_def CAKE_DESCENT_DURATION_def
  TABLE_START_Z_def TABLE_END_Z_def TABLE_SLIDE_DURATION_def TABLE_SLIDE_START_def
  CANDLE_START_Y_def CANDLE_END_Y_def CANDLE_DROP_DURATION_def CANDLE_DROP_START_def
  totalAnimationTime_def BACKGROUND_FADE_DURATION_def BACKGROUND_FADE_OFFSET_def
  BACKGROUND_FADE_END_def BACKGROUND_FADE_START_def

subsection \<open>State\<close>

text \<open>
  A three.js \<open>Vector3\<close>/\<open>Euler\<close> is a record of three numbers.  The scene record holds
  the three animated groups (position, rotation, visibility as far as the frame callback
  touches them), the six refs of \<open>AnimatedScene\<close>, and what the three callbacks have
  received so far: the values passed to \<open>onBackgroundFadeChange\<close> and
  \<open>onEnvironmentProgressChange\<close> in order of delivery, and the number of calls of
  \<open>onAnimationComplete\<close>.  In \<open>App\<close> the first two are the state setters whose value the
  lighting and the overlay read, so the value an observer sees is the last one delivered.
\<close>

record vec3 =
  vx :: real
  vy :: real
  vz :: real

definition vec :: "real \<Rightarrow> real \<Rightarrow> real \<Rightarrow> vec3" where
  "vec a b c = \<lparr>vx = a, vy = b, vz = c\<rparr>"

record scene =
  cakePosition :: vec3
  cakeRotation :: vec3
  tablePosition :: vec3
  tableRotation :: vec3
  candlePosition :: vec3
  candleVisible :: bool
  animationStartRef :: "real option"
  hasPrimedRef :: bool
  hasCompletedRef :: bool
  completionNotifiedRef :: bool
  backgroundOpacityRef :: real
  environmentProgressRef :: real
  backgroundDelivered :: "real list"
  environmentDelivered :: "real list"
  completions :: nat

text \<open>
  The refs as \<open>useRef\<close> initialises them (lines 182-187); a freshly created group sits at
  the origin, unrotated and visible.  The mount effect (lines 189-192) hands the initial
  ref values to the two observers.
\<close>

definition mountedScene :: scene where
  "mountedScene =
     \<lparr>cakePosition = vec 0 0 0, cakeRotation = vec 0 0 0,
      tablePosition = vec 0 0 0, tableRotation = vec 0 0 0,
      candlePosition = vec 0 0 0, candleVisible = True,
      animationStartRef = None, hasPrimedRef = False, hasCompletedRef = False,
      completionNotifiedRef = False, backgroundOpacityRef = 1, environmentProgressRef = 0,
      backgroundDelivered = [], environmentDelivered = [], completions = 0\<rparr>"

definition mountEffect :: "scene \<Rightarrow> scene" where
  "mountEffect st =
     st\<lparr>backgroundDelivered := backgroundDelivered st @ [backgroundOpacityRef st],
        environmentDelivered := environmentDelivered st @ [environmentProgressRef st]\<rparr>"

definition initialScene :: scene where
  "initialScene = mountEffect mountedScene"

subsection \<open>Throttled emission (lines 194-208)\<close>

definition emitBackgroundOpacity :: "real \<Rightarrow> scene \<Rightarrow> scene" where
  "emitBackgroundOpacity v st =
     (let clamped = clamp v 0 1 in
      if \<bar>clamped - backgroundOpacityRef st\<bar> > 5 / 1000
      then st\<lparr>backgroundOpacityRef := clamped,
              backgroundDelivered := backgroundDelivered st @ [clamped]\<rparr>
      else st)"

definition emitEnvironmentProgress :: "real \<Rightarrow> scene \<Rightarrow> scene" where
  "emitEnvironmentProgress v st =
     (let clamped = clamp v 0 1 in
      if \<bar>clamped - environmentProgressRef st\<bar> > 5 / 1000
      then st\<lparr>environmentProgressRef := clamped,
              environmentDelivered := environmentDelivered st @ [clamped]\<rparr>
      else st)"

subsection \<open>The frame callback (lines 210-323)\<close>

text \<open>Lines 219-227: the one-time snap to the start pose.\<close>

definition primeScene :: "scene \<Rightarrow> scene" where
  "primeScene st =
     (if hasPrimedRef st then st
      else st\<lparr>cakePosition := vec 0 CAKE_START_Y 0, cakeRotation := vec 0 0 0,
              tablePosition := vec 0 0 TABLE_START_Z, tableRotation := vec 0 0 0,
              candlePosition := vec 0 CANDLE_START_Y 0, candleVisible := False,
              hasPrimedRef := True\<rparr>)"

text \<open>Lines 229-236: the branch for \<open>isPlaying = false\<close>.\<close>

definition idleFrame :: "scene \<Rightarrow> scene" where
  "idleFrame st =
     (emitEnvironmentProgress 0 (emitBackgroundOpacity 1 st))
       \<lparr>animationStartRef := None, hasCompletedRef := False,
        completionNotifiedRef := False\<rparr>"

text \<open>Lines 241-244 and 318-321: the one-shot latch around \<open>onAnimationComplete\<close>.\<close>

definition notifyCompletion :: "scene \<Rightarrow> scene" where
  "notifyCompletion st =
     (if \<not> completionNotifiedRef st
      then st\<lparr>completionNotifiedRef := True, completions := Suc (completions st)\<rparr>
      else st)"

text \<open>Lines 238-246: the branch taken once \<open>hasCompletedRef\<close> is set.\<close>

definition completedFrame :: "scene \<Rightarrow> scene" where
  "completedFrame st =
     notifyCompletion (emitEnvironmentProgress 1 (emitBackgroundOpacity 0 st))"

text \<open>Lines 252-262: the cake pose.\<close>

definition cakePose :: "real \<Rightarrow> scene \<Rightarrow> scene" where
  "cakePose clampedElapsed st =
     (let cakeProgress = clamp (clampedElapsed / CAKE_DESCENT_DURATION) 0 1;
          cakeEase = easeOutCubic cakeProgress
      in st\<lparr>cakePosition := vec 0 (lerp CAKE_START_Y CAKE_END_Y cakeEase) 0,
             cakeRotation := vec 0 (cakeEase * pi * 2) 0\<rparr>)"

text \<open>Lines 264-275: the table pose.\<close>

definition tablePose :: "real \<Rightarrow> scene \<Rightarrow> scene" where
  "tablePose clampedElapsed st =
     (let tableZ =
        (if clampedElapsed \<ge> TABLE_SLIDE_START
         then let tableProgress =
                    clamp ((clampedElapsed - TABLE_SLIDE_START) / TABLE_SLIDE_DURATION) 0 1;
                  tableEase = easeOutCubic tableProgress
              in lerp TABLE_START_Z TABLE_END_Z tableEase
         else TABLE_START_Z)
      in st\<lparr>tablePosition := vec 0 0 tableZ, tableRotation := vec 0 0 0\<rparr>)"

text \<open>Lines 277-291: the candle pose; only the y coordinate is written inside the window.\<close>

definition candlePose :: "real \<Rightarrow> scene \<Rightarrow> scene" where
  "candlePose clampedElapsed st =
     (if clampedElapsed \<ge> CANDLE_DROP_START
      then let candleProgress =
                 clamp ((clampedElapsed - CANDLE_DROP_START) / CANDLE_DROP_DURATION) 0 1;
               candleEase = easeOutCubic candleProgress
           in st\<lparr>candleVisible := True,
                  candlePosition :=
                    (candlePosition st)\<lparr>vy := lerp CANDLE_START_Y CANDLE_END_Y candleEase\<rparr>\<rparr>
      else st\<lparr>candleVisible := False, candlePosition := vec 0 CANDLE_START_Y 0\<rparr>)"

text \<open>Lines 293-306: the background fade and the environment progress.\<close>

definition fadeSignals :: "real \<Rightarrow> scene \<Rightarrow> scene" where
  "fadeSignals clampedElapsed st =
     (if clampedElapsed < BACKGROUND_FADE_START
      then emitEnvironmentProgress 0 (emitBackgroundOpacity 1 st)
      else let fadeProgress =
                 clamp ((clampedElapsed - BACKGROUND_FADE_START) / BACKGROUND_FADE_DURATION) 0 1;
               eased = easeOutCubic fadeProgress;
               backgroundOpacity = 1 - eased
           in emitEnvironmentProgress (1 - backgroundOpacity)
                (emitBackgroundOpacity backgroundOpacity st))"

text \<open>Lines 308-322: the snap to the final pose and the completion latch.\<close>

definition completionSnap :: "real \<Rightarrow> scene \<Rightarrow> scene" where
  "completionSnap clampedElapsed st =
     (if clampedElapsed \<ge> totalAnimationTime
      then notifyCompletion
             ((emitEnvironmentProgress 1
                 (emitBackgroundOpacity 0
                    (st\<lparr>cakePosition := vec 0 CAKE_END_Y 0, cakeRotation := vec 0 0 0,
                        tablePosition := vec 0 0 TABLE_END_Z,
                        candlePosition := vec 0 CANDLE_END_Y 0, candleVisible := True\<rparr>)))
                \<lparr>hasCompletedRef := True\<rparr>)
      else st)"

text \<open>Lines 248-322: a playing frame that has not completed yet.\<close>

definition playingFrame :: "real \<Rightarrow> scene \<Rightarrow> scene" where
  "playingFrame clockElapsed st =
     (let start = (case animationStartRef st of None \<Rightarrow> clockElapsed | Some s \<Rightarrow> s);
          st1 = st\<lparr>animationStartRef := Some start\<rparr>;
          elapsed = clockElapsed - start;
          clampedElapsed = clamp elapsed 0 totalAnimationTime
      in completionSnap clampedElapsed
           (fadeSignals clampedElapsed
              (candlePose clampedElapsed
                 (tablePose clampedElapsed
                    (cakePose clampedElapsed st1)))))"

text \<open>
  The whole callback.  \<open>mounted\<close> says that the three group refs are set (line 215: the
  callback returns at once otherwise); \<open>isPlaying\<close> is the prop of the render in which the
  callback was created; \<open>clockElapsed\<close> is \<open>clock.elapsedTime\<close>.
\<close>

definition useFrame :: "bool \<Rightarrow> bool \<Rightarrow> real \<Rightarrow> scene \<Rightarrow> scene" where
  "useFrame mounted isPlaying clockElapsed st =
     (if \<not> mounted then st
      else let st1 = primeScene st in
        if \<not> isPlaying then idleFrame st1
        else if hasCompletedRef st1 then completedFrame st1
        else playingFrame clockElapsed st1)"

text \<open>A run of frames, each given as (mounted, isPlaying, clock.elapsedTime).\<close>

fun runFrames :: "scene \<Rightarrow> (bool \<times> bool \<times> real) list \<Rightarrow> scene" where
  "runFrames st [] = st"
| "runFrames st ((m, p, c) # fs) = runFrames (useFrame m p c st) fs"

subsection \<open>Facts about the easing functions and the phase windows\<close>

lemma consts_values:
  "CANDLE_DROP_START = 4" "totalAnimationTime = 26/5" "BACKGROUND_FADE_START = 3"
  "TABLE_SLIDE_START = 11/5" "BACKGROUND_FADE_END = 4" "BACKGROUND_FADE_DURATION = 1"
  "CAKE_DESCENT_DURATION = 3" "CAKE_START_Y = 10" "CAKE_END_Y = 0"
  by (simp_all add: timeline_consts)

lemma clamp_bounds: "lo \<le> hi \<Longrightarrow> lo \<le> clamp v lo hi \<and> clamp v lo hi \<le> hi"
  by (simp add: clamp_def)

lemma clamp_mono: "a \<le> b \<Longrightarrow> clamp a lo hi \<le> clamp b lo hi"
  by (auto simp add: clamp_def)

lemma clamp_id: "lo \<le> v \<Longrightarrow> v \<le> hi \<Longrightarrow> clamp v lo hi = v"
  by (simp add: clamp_def)

lemma easeOutCubic_mono: "0 \<le> a \<Longrightarrow> a \<le> b \<Longrightarrow> b \<le> 1 \<Longrightarrow> easeOutCubic a \<le> easeOutCubic b"
  by (simp add: easeOutCubic_def power_mono)

lemma easeOutCubic_bounds: "0 \<le> a \<Longrightarrow> a \<le> 1 \<Longrightarrow> 0 \<le> easeOutCubic a \<and> easeOutCubic a \<le> 1"
  by (simp add: easeOutCubic_def power_le_one)

lemma easeOutCubic_0 : "easeOutCubic 0 = 0" and easeOutCubic_1 : "easeOutCubic 1 = 1"
  by (simp_all add: easeOutCubic_def)

definition throttle :: "real \<Rightarrow> real \<Rightarrow> real" where
  "throttle r v = (if \<bar>clamp v 0 1 - r\<bar> > 5 / 1000 then clamp v 0 1 else r)"

definition fadeOpacityAt :: "real \<Rightarrow> real" where
  "fadeOpacityAt ce =
     (if ce < BACKGROUND_FADE_START then 1
      else 1 - easeOutCubic (clamp ((ce - BACKGROUND_FADE_START) / BACKGROUND_FADE_DURATION) 0 1))"

lemma fadeOpacityAt_bounds: "0 \<le> fadeOpacityAt ce \<and> fadeOpacityAt ce \<le> 1"
  using easeOutCubic_bounds[of "clamp ((ce - BACKGROUND_FADE_START) / BACKGROUND_FADE_DURATION) 0 1"]
    clamp_bounds[of 0 1 "(ce - BACKGROUND_FADE_START) / BACKGROUND_FADE_DURATION"]
  by (simp add: fadeOpacityAt_def)

lemma fadeOpacityAt_antimono: assumes "a \<le> b" shows "fadeOpacityAt b \<le> fadeOpacityAt a"
proof (cases "a < BACKGROUND_FADE_START")
  case True
  then show ?thesis using fadeOpacityAt_bounds[of b] by (simp add: fadeOpacityAt_def)
next
  case False
  let ?f = "\<lambda>x. clamp ((x - BACKGROUND_FADE_START) / BACKGROUND_FADE_DURATION) 0 1"
  have "?f a \<le> ?f b" using assms by (intro clamp_mono) (simp add: consts_values)
  then have "easeOutCubic (?f a) \<le> easeOutCubic (?f b)"
    using clamp_bounds[of 0 1] by (intro easeOutCubic_mono) auto
  then show ?thesis using False assms by (simp add: fadeOpacityAt_def)
qed

lemma fadeOpacityAt_end: "BACKGROUND_FADE_END \<le> ce \<Longrightarrow> fadeOpacityAt ce = 0"
  by (simp add: fadeOpacityAt_def consts_values clamp_def easeOutCubic_def)

lemma fadeOpacityAt_start: "ce \<le> BACKGROUND_FADE_START \<Longrightarrow> fadeOpacityAt ce = 1"
  by (auto simp add: fadeOpacityAt_def consts_values clamp_def easeOutCubic_def)

definition startOf :: "real \<Rightarrow> scene \<Rightarrow> real" where
  "startOf c st = (case animationStartRef st of None \<Rightarrow> c | Some s \<Rightarrow> s)"

definition clampedElapsedOf :: "real \<Rightarrow> scene \<Rightarrow> real" where
  "clampedElapsedOf c st = clamp (c - startOf c st) 0 totalAnimationTime"

definition backgroundTarget :: "bool \<Rightarrow> real \<Rightarrow> scene \<Rightarrow> real" where
  "backgroundTarget p c st =
     (if \<not> p then 1 else if hasCompletedRef st then 0 else fadeOpacityAt (clampedElapsedOf c st))"

lemma throttle_idem: "throttle (throttle r v) v = throttle r v"
  by (simp add: throttle_def)


lemma emitB_proj [simp]:
  "backgroundOpacityRef (emitBackgroundOpacity v st) = throttle (backgroundOpacityRef st) v"
  "environmentProgressRef (emitBackgroundOpacity v st) = environmentProgressRef st"
  "hasCompletedRef (emitBackgroundOpacity v st) = hasCompletedRef st"
  "completionNotifiedRef (emitBackgroundOpacity v st) = completionNotifiedRef st"
  "animationStartRef (emitBackgroundOpacity v st) = animationStartRef st"
  "hasPrimedRef (emitBackgroundOpacity v st) = hasPrimedRef st"
  "completions (emitBackgroundOpacity v st) = completions st"
  "environmentDelivered (emitBackgroundOpacity v st) = environmentDelivered st"
  by (simp_all add: emitBackgroundOpacity_def throttle_def Let_def)

lemma emitE_proj [simp]:
  "environmentProgressRef (emitEnvironmentProgress v st) = throttle (environmentProgressRef st) v"
  "backgroundOpacityRef (emitEnvironmentProgress v st) = backgroundOpacityRef st"
  "hasCompletedRef (emitEnvironmentProgress v st) = hasCompletedRef st"
  "completionNotifiedRef (emitEnvironmentProgress v st) = completionNotifiedRef st"
  "animationStartRef (emitEnvironmentProgress v st) = animationStartRef st"
  "hasPrimedRef (emitEnvironmentProgress v st) = hasPrimedRef st"
  "completions (emitEnvironmentProgress v st) = completions st"
  "backgroundDelivered (emitEnvironmentProgress v st) = backgroundDelivered st"
  by (simp_all add: emitEnvironmentProgress_def throttle_def Let_def)

lemma fadeSignals_proj [simp]:
  "backgroundOpacityRef (fadeSignals ce st) = throttle (backgroundOpacityRef st) (fadeOpacityAt ce)"
  "environmentProgressRef (fadeSignals ce st) = throttle (environmentProgressRef st) (1 - fadeOpacityAt ce)"
  "hasCompletedRef (fadeSignals ce st) = hasCompletedRef st"
  "completionNotifiedRef (fadeSignals ce st) = completionNotifiedRef st"
  "animationStartRef (fadeSignals ce st) = animationStartRef st"
  "hasPrimedRef (fadeSignals ce st) = hasPrimedRef st"
  "completions (fadeSignals ce st) = completions st"
  by (simp_all add: fadeSignals_def fadeOpacityAt_def Let_def)

lemma poses_proj [simp]:
  "backgroundOpacityRef (cakePose ce st) = backgroundOpacityRef st"
  "environmentProgressRef (cakePose ce st) = environmentProgressRef st"
  "backgroundOpacityRef (tablePose ce st) = backgroundOpacityRef st"
  "environmentProgressRef (tablePose ce st) = environmentProgressRef st"
  "backgroundOpacityRef (candlePose ce st) = backgroundOpacityRef st"
  "environmentProgressRef (candlePose ce st) = environmentProgressRef st"
  "backgroundOpacityRef (primeScene st) = backgroundOpacityRef st"
  "environmentProgressRef (primeScene st) = environmentProgressRef st"
  "backgroundOpacityRef (notifyCompletion st) = backgroundOpacityRef st"
  "environmentProgressRef (notifyCompletion st) = environmentProgressRef st"
  by (simp_all add: cakePose_def tablePose_def candlePose_def primeScene_def notifyCompletion_def Let_def)

lemma refs_proj [simp]:
  "hasCompletedRef (cakePose ce st) = hasCompletedRef st"
  "hasCompletedRef (tablePose ce st) = hasCompletedRef st"
  "hasCompletedRef (candlePose ce st) = hasCompletedRef st"
  "hasCompletedRef (primeScene st) = hasCompletedRef st"
  "hasCompletedRef (notifyCompletion st) = hasCompletedRef st"
  "animationStartRef (cakePose ce st) = animationStartRef st"
  "animationStartRef (tablePose ce st) = animationStartRef st"
  "animationStartRef (candlePose ce st) = animationStartRef st"
  "animationStartRef (primeScene st) = animationStartRef st"
  "animationStartRef (notifyCompletion st) = animationStartRef st"
  "completionNotifiedRef (cakePose ce st) = completionNotifiedRef st"
  "completionNotifiedRef (tablePose ce st) = completionNotifiedRef st"
  "completionNotifiedRef (candlePose ce st) = completionNotifiedRef st"
  "completionNotifiedRef (primeScene st) = completionNotifiedRef st"
  "completions (cakePose ce st) = completions st"
  "completions (tablePose ce st) = completions st"
  "completions (candlePose ce st) = completions st"
  "completions (primeScene st) = completions st"
  by (simp_all add: cakePose_def tablePose_def candlePose_def primeScene_def notifyCompletion_def Let_def)

lemma completionSnap_signals [simp]:
  "backgroundOpacityRef (completionSnap ce st) =
     (if totalAnimationTime \<le> ce then throttle (backgroundOpacityRef st) 0 else backgroundOpacityRef st)"
  "environmentProgressRef (completionSnap ce st) =
     (if totalAnimationTime \<le> ce then throttle (environmentProgressRef st) 1 else environmentProgressRef st)"
  "hasCompletedRef (completionSnap ce st) = (totalAnimationTime \<le> ce \<or> hasCompletedRef st)"
  "animationStartRef (completionSnap ce st) = animationStartRef st"
  by (simp_all add: completionSnap_def)

lemma fadeOpacityAt_total: "totalAnimationTime \<le> ce \<Longrightarrow> fadeOpacityAt ce = 0"
    by (rule fadeOpacityAt_end) (simp add: consts_values)

lemma useFrame_background:
  "backgroundOpacityRef (useFrame True p c st) = throttle (backgroundOpacityRef st) (backgroundTarget p c st)"
  by (simp add: useFrame_def idleFrame_def completedFrame_def playingFrame_def Let_def
      backgroundTarget_def clampedElapsedOf_def startOf_def fadeOpacityAt_total throttle_idem)

lemma useFrame_environment:
  "environmentProgressRef (useFrame True p c st) = throttle (environmentProgressRef st) (1 - backgroundTarget p c st)"
  by (simp add: useFrame_def idleFrame_def completedFrame_def playingFrame_def Let_def
      backgroundTarget_def clampedElapsedOf_def startOf_def fadeOpacityAt_total throttle_idem)


lemma delivered_proj [simp]:
  "backgroundDelivered (emitBackgroundOpacity v st) =
     backgroundDelivered st @
       (if throttle (backgroundOpacityRef st) v = backgroundOpacityRef st then []
        else [throttle (backgroundOpacityRef st) v])"
  "environmentDelivered (emitEnvironmentProgress v st) =
     environmentDelivered st @
       (if throttle (environmentProgressRef st) v = environmentProgressRef st then []
        else [throttle (environmentProgressRef st) v])"
  by (auto simp add: emitBackgroundOpacity_def emitEnvironmentProgress_def throttle_def Let_def)

lemma delivered_frame [simp]:
  "backgroundDelivered (cakePose ce st) = backgroundDelivered st"
  "backgroundDelivered (tablePose ce st) = backgroundDelivered st"
  "backgroundDelivered (candlePose ce st) = backgroundDelivered st"
  "backgroundDelivered (primeScene st) = backgroundDelivered st"
  "backgroundDelivered (notifyCompletion st) = backgroundDelivered st"
  "environmentDelivered (cakePose ce st) = environmentDelivered st"
  "environmentDelivered (tablePose ce st) = environmentDelivered st"
  "environmentDelivered (candlePose ce st) = environmentDelivered st"
  "environmentDelivered (primeScene st) = environmentDelivered st"
  "environmentDelivered (notifyCompletion st) = environmentDelivered st"
  by (simp_all add: cakePose_def tablePose_def candlePose_def primeScene_def notifyCompletion_def Let_def)

lemma fadeSignals_delivered [simp]:
  "backgroundDelivered (fadeSignals ce st) =
     backgroundDelivered st @
       (if throttle (backgroundOpacityRef st) (fadeOpacityAt ce) = backgroundOpacityRef st then []
        else [throttle (backgroundOpacityRef st) (fadeOpacityAt ce)])"
  "environmentDelivered (fadeSignals ce st) =
     environmentDelivered st @
       (if throttle (environmentProgressRef st) (1 - fadeOpacityAt ce) = environmentProgressRef st then []
        else [throttle (environmentProgressRef st) (1 - fadeOpacityAt ce)])"
  by (simp_all add: fadeSignals_def fadeOpacityAt_def Let_def)

lemma completionSnap_delivered [simp]:
  "backgroundDelivered (completionSnap ce st) =
     backgroundDelivered st @
       (if totalAnimationTime \<le> ce \<and> throttle (backgroundOpacityRef st) 0 \<noteq> backgroundOpacityRef st
        then [throttle (backgroundOpacityRef st) 0] else [])"
  "environmentDelivered (completionSnap ce st) =
     environmentDelivered st @
       (if totalAnimationTime \<le> ce \<and> throttle (environmentProgressRef st) 1 \<noteq> environmentProgressRef st
        then [throttle (environmentProgressRef st) 1] else [])"
  by (simp_all add: completionSnap_def)

lemma useFrame_backgroundDelivered:
  "backgroundDelivered (useFrame True p c st) =
     backgroundDelivered st @
       (if backgroundOpacityRef (useFrame True p c st) = backgroundOpacityRef st then []
        else [backgroundOpacityRef (useFrame True p c st)])"
  unfolding useFrame_background
  by (simp add: useFrame_def idleFrame_def completedFrame_def playingFrame_def Let_def
      backgroundTarget_def clampedElapsedOf_def startOf_def fadeOpacityAt_total throttle_idem)

lemma useFrame_environmentDelivered:
  "environmentDelivered (useFrame True p c st) =
     environmentDelivered st @
       (if environmentProgressRef (useFrame True p c st) = environmentProgressRef st then []
        else [environmentProgressRef (useFrame True p c st)])"
  unfolding useFrame_environment
  by (simp add: useFrame_def idleFrame_def completedFrame_def playingFrame_def Let_def
      backgroundTarget_def clampedElapsedOf_def startOf_def fadeOpacityAt_total throttle_idem)

lemma useFrame_refs:
  "animationStartRef (useFrame True p c st) =
     (if \<not> p then None else if hasCompletedRef st then animationStartRef st else Some (startOf c st))"
  "hasCompletedRef (useFrame True p c st) =
     (p \<and> (hasCompletedRef st \<or> totalAnimationTime \<le> clampedElapsedOf c st))"
  by (simp_all add: useFrame_def idleFrame_def completedFrame_def playingFrame_def Let_def
      clampedElapsedOf_def startOf_def)

lemma useFrame_unmounted [simp]: "useFrame False p c st = st"
  by (simp add: useFrame_def)

lemma throttle_unit: "0 \<le> r \<Longrightarrow> r \<le> 1 \<Longrightarrow> 0 \<le> throttle r v \<and> throttle r v \<le> 1"
  by (simp add: throttle_def clamp_def)

lemma throttle_down:
  "0 \<le> v \<Longrightarrow> v \<le> r \<Longrightarrow> r \<le> 1 \<Longrightarrow> v \<le> throttle r v \<and> throttle r v \<le> r"
  by (simp add: throttle_def clamp_def)

lemma throttle_up:
  "0 \<le> r \<Longrightarrow> r \<le> v \<Longrightarrow> v \<le> 1 \<Longrightarrow> r \<le> throttle r v \<and> throttle r v \<le> v"
  by (simp add: throttle_def clamp_def)

lemma throttle_down_gap:
  "0 \<le> v \<Longrightarrow> v \<le> r \<Longrightarrow> r \<le> 1 \<Longrightarrow> r = 1 \<or> r < 995 / 1000 \<Longrightarrow>
     throttle r v = 1 \<or> throttle r v < 995 / 1000"
  by (auto simp add: throttle_def clamp_def)

lemma throttle_up_gap:
  "0 \<le> r \<Longrightarrow> r \<le> v \<Longrightarrow> v \<le> 1 \<Longrightarrow> r = 0 \<or> r > 5 / 1000 \<Longrightarrow>
     throttle r v = 0 \<or> throttle r v > 5 / 1000"
  by (auto simp add: throttle_def clamp_def)

lemma throttle_one: "r \<le> 1 \<Longrightarrow> r = 1 \<or> r < 995 / 1000 \<Longrightarrow> throttle r 1 = 1"
  by (auto simp add: throttle_def clamp_def)

lemma throttle_zero: "0 \<le> r \<Longrightarrow> r = 0 \<or> r > 5 / 1000 \<Longrightarrow> throttle r 0 = 0"
  by (auto simp add: throttle_def clamp_def)

lemma throttle_near_zero: "0 \<le> r \<Longrightarrow> r \<le> 1 \<Longrightarrow> 0 \<le> throttle r 0 \<and> throttle r 0 \<le> 5 / 1000"
  by (auto simp add: throttle_def clamp_def)

lemma throttle_near_one: "0 \<le> r \<Longrightarrow> r \<le> 1 \<Longrightarrow> 995 / 1000 \<le> throttle r 1 \<and> throttle r 1 \<le> 1"
  by (auto simp add: throttle_def clamp_def)

definition signalInv :: "real \<Rightarrow> scene \<Rightarrow> bool" where
  "signalInv c st =
     (0 \<le> backgroundOpacityRef st \<and> backgroundOpacityRef st \<le> 1 \<and>
      0 \<le> environmentProgressRef st \<and> environmentProgressRef st \<le> 1 \<and>
      (backgroundOpacityRef st = 1 \<or> backgroundOpacityRef st < 995 / 1000) \<and>
      (environmentProgressRef st = 0 \<or> environmentProgressRef st > 5 / 1000) \<and>
      backgroundDelivered st \<noteq> [] \<and> last (backgroundDelivered st) = backgroundOpacityRef st \<and>
      environmentDelivered st \<noteq> [] \<and> last (environmentDelivered st) = environmentProgressRef st \<and>
      (case animationStartRef st of
         None \<Rightarrow> backgroundOpacityRef st = 1 \<and> environmentProgressRef st = 0 \<and> \<not> hasCompletedRef st
       | Some s \<Rightarrow> s \<le> c \<and>
           (hasCompletedRef st \<or>
            (fadeOpacityAt (clamp (c - s) 0 totalAnimationTime) \<le> backgroundOpacityRef st \<and>
             environmentProgressRef st \<le> 1 - fadeOpacityAt (clamp (c - s) 0 totalAnimationTime)))))"

lemma signalInv_initial: "signalInv c initialScene"
  by (simp add: signalInv_def initialScene_def mountEffect_def mountedScene_def)

lemma signalInv_later:
  assumes "signalInv c st" "c \<le> c'" shows "signalInv c' st"
proof (cases "animationStartRef st")
  case None
  then show ?thesis using assms by (simp add: signalInv_def)
next
  case (Some s)
  have "fadeOpacityAt (clamp (c' - s) 0 totalAnimationTime) \<le> fadeOpacityAt (clamp (c - s) 0 totalAnimationTime)"
    using assms(2) by (intro fadeOpacityAt_antimono clamp_mono) simp
  then show ?thesis using assms Some by (auto simp add: signalInv_def)
qed


lemma backgroundTarget_unit: "0 \<le> backgroundTarget p c st \<and> backgroundTarget p c st \<le> 1"
  using fadeOpacityAt_bounds by (simp add: backgroundTarget_def)

lemma backgroundTarget_below:
  assumes "signalInv c st"
  shows "backgroundTarget True c st \<le> backgroundOpacityRef st \<and>
         environmentProgressRef st \<le> 1 - backgroundTarget True c st"
proof (cases "animationStartRef st")
  case None
  have "fadeOpacityAt 0 = 1" by (rule fadeOpacityAt_start) (simp add: consts_values)
  then show ?thesis using assms None
    by (simp add: signalInv_def backgroundTarget_def clampedElapsedOf_def startOf_def clamp_def
        consts_values)
next
  case (Some s)
  then show ?thesis using assms
    by (auto simp add: signalInv_def backgroundTarget_def clampedElapsedOf_def startOf_def)
qed

lemma signalInv_idle:
  assumes inv: "signalInv c st"
  shows "signalInv c (useFrame True False c st)"
proof -
  have "throttle (backgroundOpacityRef st) 1 = 1" "throttle (environmentProgressRef st) 0 = 0"
    using inv throttle_one[of "backgroundOpacityRef st"] throttle_zero[of "environmentProgressRef st"]
    by (simp_all add: signalInv_def)
  then show ?thesis using inv
    by (simp add: signalInv_def useFrame_background useFrame_environment
      useFrame_backgroundDelivered useFrame_environmentDelivered useFrame_refs backgroundTarget_def)
qed

lemma signalInv_playing:
  assumes inv: "signalInv c st"
  shows "signalInv c (useFrame True True c st)"
proof -
  define v where "v = backgroundTarget True c st"
  define b where "b = backgroundOpacityRef st"
  define e where "e = environmentProgressRef st"
  have v: "0 \<le> v" "v \<le> 1" using backgroundTarget_unit[of True c st] by (simp_all add: v_def)
  have below: "v \<le> b" "e \<le> 1 - v"
    using backgroundTarget_below[OF inv] by (simp_all add: v_def b_def e_def)
  have b: "0 \<le> b" "b \<le> 1" "b = 1 \<or> b < 995 / 1000"
    and e: "0 \<le> e" "e \<le> 1" "e = 0 \<or> e > 5 / 1000"
    using inv by (simp_all add: signalInv_def b_def e_def)
  have tb: "0 \<le> throttle b v" "throttle b v \<le> 1" "v \<le> throttle b v"
    "throttle b v = 1 \<or> throttle b v < 995 / 1000"
    using throttle_down[of v b] throttle_down_gap[of v b] v below b by auto
  have te: "0 \<le> throttle e (1 - v)" "throttle e (1 - v) \<le> 1" "throttle e (1 - v) \<le> 1 - v"
    "throttle e (1 - v) = 0 \<or> throttle e (1 - v) > 5 / 1000"
    using throttle_up[of e "1 - v"] throttle_up_gap[of e "1 - v"] v below e by auto
  have started: "hasCompletedRef st \<Longrightarrow> \<exists>s. animationStartRef st = Some s \<and> s \<le> c"
    using inv by (cases "animationStartRef st") (simp_all add: signalInv_def)
  have start_le: "startOf c st \<le> c"
    using inv by (cases "animationStartRef st") (simp_all add: signalInv_def startOf_def)
  have tgt: "\<not> hasCompletedRef st \<Longrightarrow>
      v = fadeOpacityAt (clamp (c - startOf c st) 0 totalAnimationTime)"
    by (simp add: v_def backgroundTarget_def clampedElapsedOf_def)
  let ?st' = "useFrame True True c st"
  have bg': "backgroundOpacityRef ?st' = throttle b v"
    and env': "environmentProgressRef ?st' = throttle e (1 - v)"
    by (simp_all add: useFrame_background useFrame_environment v_def b_def e_def)
  have range: "0 \<le> backgroundOpacityRef ?st' \<and> backgroundOpacityRef ?st' \<le> 1 \<and>
      0 \<le> environmentProgressRef ?st' \<and> environmentProgressRef ?st' \<le> 1 \<and>
      (backgroundOpacityRef ?st' = 1 \<or> backgroundOpacityRef ?st' < 995 / 1000) \<and>
      (environmentProgressRef ?st' = 0 \<or> environmentProgressRef ?st' > 5 / 1000)"
    using tb te by (simp add: bg' env')
  have deliv: "backgroundDelivered ?st' \<noteq> [] \<and>
      last (backgroundDelivered ?st') = backgroundOpacityRef ?st' \<and>
      environmentDelivered ?st' \<noteq> [] \<and>
      last (environmentDelivered ?st') = environmentProgressRef ?st'"
    using inv
    by (simp add: useFrame_backgroundDelivered useFrame_environmentDelivered signalInv_def)
  have sess: "(case animationStartRef ?st' of
         None \<Rightarrow> backgroundOpacityRef ?st' = 1 \<and> environmentProgressRef ?st' = 0 \<and>
           \<not> hasCompletedRef ?st'
       | Some s \<Rightarrow> s \<le> c \<and>
           (hasCompletedRef ?st' \<or>
            (fadeOpacityAt (clamp (c - s) 0 totalAnimationTime) \<le> backgroundOpacityRef ?st' \<and>
             environmentProgressRef ?st' \<le> 1 - fadeOpacityAt (clamp (c - s) 0 totalAnimationTime))))"
  proof (cases "hasCompletedRef st")
    case True
    then show ?thesis using started by (auto simp add: useFrame_refs)
  next
    case False
    then show ?thesis using tgt[OF False] start_le tb te
      by (simp add: useFrame_refs bg' env')
  qed
  show ?thesis
    unfolding signalInv_def using range deliv sess by blast
qed

lemma signalInv_step:
  assumes "signalInv c st" "c \<le> c'"
  shows "signalInv c' (useFrame m p c' st)"
  using signalInv_playing[OF signalInv_later[OF assms]] signalInv_idle[OF signalInv_later[OF assms]]
    signalInv_later[OF assms]
  by (cases m; cases p) simp_all

lemma signalInv_run:
  "signalInv c st \<Longrightarrow> sorted (c # map (\<lambda>f. snd (snd f)) fs) \<Longrightarrow>
     signalInv (last (c # map (\<lambda>f. snd (snd f)) fs)) (runFrames st fs)"
proof (induction fs arbitrary: c st)
  case Nil
  then show ?case by simp
next
  case (Cons f fs)
  obtain m p c' where f: "f = (m, p, c')" by (cases f)
  have "signalInv c' (useFrame m p c' st)"
    using Cons.prems f by (intro signalInv_step) auto
  moreover have "sorted (c' # map (\<lambda>f. snd (snd f)) fs)" using Cons.prems f by simp
  ultimately have "signalInv (last (c' # map (\<lambda>f. snd (snd f)) fs)) (runFrames (useFrame m p c' st) fs)"
    by (rule Cons.IH)
  then show ?case using f by simp
qed


lemma signalInv_reach:
  assumes "sorted (map (\<lambda>f. snd (snd f)) fs)" "\<forall>f\<in>set fs. snd (snd f) \<le> c"
  shows "signalInv c (runFrames initialScene fs)"
proof (cases fs)
  case Nil
  then show ?thesis by (simp add: signalInv_initial)
next
  case (Cons f fs')
  let ?c0 = "snd (snd f)"
  have "sorted (?c0 # map (\<lambda>f. snd (snd f)) fs)" using assms(1) Cons by simp
  from signalInv_run[OF signalInv_initial this]
  have "signalInv (last (map (\<lambda>f. snd (snd f)) fs)) (runFrames initialScene fs)"
    using Cons by simp
  moreover have "last (map (\<lambda>f. snd (snd f)) fs) \<le> c"
    using assms(2) Cons by (simp add: last_map)
  ultimately show ?thesis by (rule signalInv_later)
qed

lemma useFrame_idle_fixed:
  assumes "hasPrimedRef st" "backgroundOpacityRef st = 1" "environmentProgressRef st = 0"
    "animationStartRef st = None" "\<not> hasCompletedRef st" "\<not> completionNotifiedRef st"
  shows "useFrame True False c st = st"
  using assms
  by (simp add: useFrame_def primeScene_def idleFrame_def emitBackgroundOpacity_def
      emitEnvironmentProgress_def clamp_def)

lemma useFrame_idle_poses:
  assumes "hasPrimedRef st"
  shows "cakePosition (useFrame True False c st) = cakePosition st"
    "cakeRotation (useFrame True False c st) = cakeRotation st"
    "tablePosition (useFrame True False c st) = tablePosition st"
    "tableRotation (useFrame True False c st) = tableRotation st"
    "candlePosition (useFrame True False c st) = candlePosition st"
    "candleVisible (useFrame True False c st) = candleVisible st"
  using assms
  by (simp_all add: useFrame_def primeScene_def idleFrame_def emitBackgroundOpacity_def
      emitEnvironmentProgress_def Let_def)

lemma useFrame_idle_flags:
  "hasPrimedRef (useFrame True False c st)"
  "animationStartRef (useFrame True False c st) = None"
  "\<not> hasCompletedRef (useFrame True False c st)"
  "\<not> completionNotifiedRef (useFrame True False c st)"
  by (simp_all add: useFrame_def primeScene_def idleFrame_def emitBackgroundOpacity_def
      emitEnvironmentProgress_def Let_def)

lemma useFrame_primed: "hasPrimedRef (useFrame True p c st)"
  by (simp add: useFrame_def primeScene_def idleFrame_def completedFrame_def playingFrame_def
      completionSnap_def notifyCompletion_def cakePose_def tablePose_def candlePose_def Let_def)

subsection \<open>Idle frames\<close>

text \<open>
  Claim C9.  Ticking the timeline with \<open>isPlaying = false\<close> is idempotent.  Take any run
  of frames from the mounted scene whose clock readings never decrease, and tick once
  more with the groups mounted and \<open>isPlaying = false\<close>: the refs and the values last
  delivered to the two observers are \<open>(backgroundOpacity, environmentProgress) = (1, 0)\<close>,
  a further such tick changes nothing at all, and once the scene has been primed the
  tick leaves the cake, table and candle poses as they were.
\<close>

theorem idle_tick_resets_signals:
  assumes "sorted (map (\<lambda>f. snd (snd f)) fs)"
  shows "backgroundOpacityRef (useFrame True False c (runFrames initialScene fs)) = 1 \<and>
         environmentProgressRef (useFrame True False c (runFrames initialScene fs)) = 0 \<and>
         last (backgroundDelivered (useFrame True False c (runFrames initialScene fs))) = 1 \<and>
         last (environmentDelivered (useFrame True False c (runFrames initialScene fs))) = 0 \<and>
         useFrame True False c' (useFrame True False c (runFrames initialScene fs)) =
           useFrame True False c (runFrames initialScene fs) \<and>
         (hasPrimedRef (runFrames initialScene fs) \<longrightarrow>
            cakePosition (useFrame True False c (runFrames initialScene fs)) =
              cakePosition (runFrames initialScene fs) \<and>
            cakeRotation (useFrame True False c (runFrames initialScene fs)) =
              cakeRotation (runFrames initialScene fs) \<and>
            tablePosition (useFrame True False c (runFrames initialScene fs)) =
              tablePosition (runFrames initialScene fs) \<and>
            tableRotation (useFrame True False c (runFrames initialScene fs)) =
              tableRotation (runFrames initialScene fs) \<and>
            candlePosition (useFrame True False c (runFrames initialScene fs)) =
              candlePosition (runFrames initialScene fs) \<and>
            candleVisible (useFrame True False c (runFrames initialScene fs)) =
              candleVisible (runFrames initialScene fs))"
proof -
  define st where "st = runFrames initialScene fs"
  define k where "k = Max (insert 0 ((\<lambda>f. snd (snd f)) ` set fs))"
  have "\<forall>f\<in>set fs. snd (snd f) \<le> k"
    unfolding k_def by (auto intro!: Max_ge)
  then have "signalInv k st" unfolding st_def using assms by (intro signalInv_reach)
  then have inv: "signalInv k (useFrame True False k st)" by (rule signalInv_idle)
  have same: "useFrame True False c st = useFrame True False k st" by (simp add: useFrame_def)
  have sig: "backgroundOpacityRef (useFrame True False c st) = 1"
    "environmentProgressRef (useFrame True False c st) = 0"
    "last (backgroundDelivered (useFrame True False c st)) = 1"
    "last (environmentDelivered (useFrame True False c st)) = 0"
    using inv useFrame_idle_flags(2)[of k st] unfolding same by (simp_all add: signalInv_def)
  have "useFrame True False c' (useFrame True False c st) = useFrame True False c st"
    using sig useFrame_idle_flags[of c st] by (intro useFrame_idle_fixed) simp_all
  then show ?thesis using sig useFrame_idle_poses[of st c] unfolding st_def by simp
qed

theorem idle_tick_resets_signals_witness:
  "sorted (map (\<lambda>f. snd (snd f))
      [(True, True, 0 :: real), (True, True, 39 / 10), (True, True, 26 / 5)]) \<and>
   hasPrimedRef (runFrames initialScene [(True, True, 0), (True, True, 39 / 10), (True, True, 26 / 5)]) \<and>
   backgroundOpacityRef (useFrame True False 6
      (runFrames initialScene [(True, True, 0), (True, True, 39 / 10), (True, True, 26 / 5)])) = 1 \<and>
   environmentProgressRef (useFrame True False 6
      (runFrames initialScene [(True, True, 0), (True, True, 39 / 10), (True, True, 26 / 5)])) = 0 \<and>
   cakePosition (useFrame True False 6
      (runFrames initialScene [(True, True, 0), (True, True, 39 / 10), (True, True, 26 / 5)])) =
     cakePosition (runFrames initialScene [(True, True, 0), (True, True, 39 / 10), (True, True, 26 / 5)])"
proof -
  let ?fs = "[(True, True, 0), (True, True, 39 / 10), (True, True, 26 / 5 :: real)]"
  have h1: "sorted (map (\<lambda>f. snd (snd f)) ?fs)" by simp
  have h2: "hasPrimedRef (runFrames initialScene ?fs)"
    by (simp add: useFrame_primed)
  note t = idle_tick_resets_signals[OF h1, of 6 7]
  have "cakePosition (useFrame True False 6 (runFrames initialScene ?fs)) =
     cakePosition (runFrames initialScene ?fs)"
    using t h2 by - (elim conjE impE, assumption+)
  moreover have "backgroundOpacityRef (useFrame True False 6 (runFrames initialScene ?fs)) = 1"
    "environmentProgressRef (useFrame True False 6 (runFrames initialScene ?fs)) = 0"
    using t by - (elim conjE, assumption)+
  ultimately show ?thesis using h1 h2 by - (intro conjI, assumption+)
qed

subsection \<open>The completion latch\<close>

lemma total_pos: "0 < totalAnimationTime" by (simp add: consts_values)

lemma clamp_total_iff: "totalAnimationTime \<le> clamp e 0 totalAnimationTime \<longleftrightarrow> totalAnimationTime \<le> e"
  using total_pos by (auto simp add: clamp_def)

lemma notify_proj [simp]:
  "completions (notifyCompletion st) =
     (if completionNotifiedRef st then completions st else Suc (completions st))"
  "completionNotifiedRef (notifyCompletion st) = True"
  by (simp_all add: notifyCompletion_def)

lemma completionSnap_latch [simp]:
  "completions (completionSnap ce st) =
     (if totalAnimationTime \<le> ce \<and> \<not> completionNotifiedRef st then Suc (completions st)
      else completions st)"
  "completionNotifiedRef (completionSnap ce st) =
     (totalAnimationTime \<le> ce \<or> completionNotifiedRef st)"
  by (simp_all add: completionSnap_def)

lemma useFrame_playing_latch:
  "completions (useFrame True True c st) =
     (if \<not> completionNotifiedRef st \<and> (hasCompletedRef st \<or> totalAnimationTime \<le> c - startOf c st)
      then Suc (completions st) else completions st)"
  "completionNotifiedRef (useFrame True True c st) =
     (completionNotifiedRef st \<or> hasCompletedRef st \<or> totalAnimationTime \<le> c - startOf c st)"
  "hasCompletedRef (useFrame True True c st) =
     (hasCompletedRef st \<or> totalAnimationTime \<le> c - startOf c st)"
  by (auto simp add: useFrame_def completedFrame_def playingFrame_def Let_def startOf_def
      clamp_total_iff split: option.splits)

lemma session_completions:
  "animationStartRef st = Some s \<Longrightarrow> hasCompletedRef st = completionNotifiedRef st \<Longrightarrow>
   completions (runFrames st (map (\<lambda>c. (True, True, c)) cs)) =
     completions st +
       (if \<not> hasCompletedRef st \<and> (\<exists>c\<in>set cs. totalAnimationTime \<le> c - s) then 1 else 0)"
proof (induction cs arbitrary: st)
  case Nil
  then show ?case by simp
next
  case (Cons c cs)
  let ?st' = "useFrame True True c st"
  have s: "startOf c st = s" using Cons.prems by (simp add: startOf_def)
  have 1: "animationStartRef ?st' = Some s"
    using Cons.prems s by (simp add: useFrame_refs)
  have 2: "hasCompletedRef ?st' = completionNotifiedRef ?st'"
    using Cons.prems by (simp add: useFrame_playing_latch)
  show ?case
    using Cons.IH[OF 1 2] Cons.prems s by (auto simp add: useFrame_playing_latch)
qed


lemma fresh_session_completions:
  assumes fresh: "animationStartRef st = None" "\<not> hasCompletedRef st" "\<not> completionNotifiedRef st"
  shows "completions (runFrames st (map (\<lambda>c. (True, True, c)) cs)) =
     completions st + (if \<exists>c\<in>set cs. totalAnimationTime \<le> c - hd cs then 1 else 0)"
proof (cases cs)
  case Nil
  then show ?thesis by simp
next
  case (Cons c cs')
  let ?st' = "useFrame True True c st"
  have s: "startOf c st = c" using fresh by (simp add: startOf_def)
  have 1: "animationStartRef ?st' = Some c"
    using fresh s by (simp add: useFrame_refs)
  have 2: "hasCompletedRef ?st' = completionNotifiedRef ?st'"
    using fresh by (simp add: useFrame_playing_latch)
  have 3: "\<not> hasCompletedRef ?st'" "completions ?st' = completions st"
    using fresh s total_pos by (simp_all add: useFrame_playing_latch)
  show ?thesis
    using session_completions[OF 1 2, of cs'] 3 Cons total_pos by simp
qed

lemma fresh_session_completions_take:
  assumes fresh: "animationStartRef st = None" "\<not> hasCompletedRef st" "\<not> completionNotifiedRef st"
    and m: "m \<le> length cs"
  shows "completions (runFrames st (map (\<lambda>c. (True, True, c)) (take m cs))) =
     completions st + (if \<exists>k<m. totalAnimationTime \<le> cs ! k - hd cs then 1 else 0)"
proof (cases m)
  case 0
  then show ?thesis by simp
next
  case (Suc m')
  then have hd: "hd (take m cs) = hd cs" by (simp add: hd_take)
  have "(\<exists>c\<in>set (take m cs). totalAnimationTime \<le> c - hd cs) \<longleftrightarrow>
        (\<exists>k<m. totalAnimationTime \<le> cs ! k - hd cs)"
    unfolding nth_image[OF m, symmetric] by auto
  then show ?thesis
    using fresh_session_completions[OF fresh, of "take m cs"] hd by simp
qed

lemma initialScene_fresh:
  "animationStartRef initialScene = None" "\<not> hasCompletedRef initialScene"
  "\<not> completionNotifiedRef initialScene"
  by (simp_all add: initialScene_def mountEffect_def mountedScene_def)

text \<open>
  Claim C1.  A play session is the run of playing frames that follows a frame with
  \<open>isPlaying = false\<close> (or the mount).  Whatever the state before that idle frame and
  whatever the clock readings \<open>cs\<close> of the session, \<open>onAnimationComplete\<close> is called once
  if some frame of the session has \<open>clock.elapsedTime - start \<ge> totalAnimationTime\<close> (the
  start being the reading of the session's first frame) and never otherwise; frame \<open>n\<close>
  of the session makes the call exactly when it is the first frame whose elapsed time
  has reached \<open>totalAnimationTime\<close>, so no later frame of the session calls it again.
\<close>

theorem completion_fires_once:
  fixes st0 :: scene and c0 :: real and cs :: "real list"
  defines "idle \<equiv> useFrame True False c0 st0"
  defines "after \<equiv> \<lambda>n. runFrames idle (map (\<lambda>c. (True, True, c)) (take n cs))"
  shows "completions (runFrames idle (map (\<lambda>c. (True, True, c)) cs)) =
           completions idle + (if \<exists>c\<in>set cs. totalAnimationTime \<le> c - hd cs then 1 else 0) \<and>
         (\<forall>n<length cs. completions (after (Suc n)) =
           completions (after n) +
             (if totalAnimationTime \<le> cs ! n - hd cs \<and>
                 (\<forall>k<n. cs ! k - hd cs < totalAnimationTime) then 1 else 0)) \<and>
         completions (runFrames initialScene (map (\<lambda>c. (True, True, c)) cs)) =
           (if \<exists>c\<in>set cs. totalAnimationTime \<le> c - hd cs then 1 else 0)"
proof -
  have fresh: "animationStartRef idle = None" "\<not> hasCompletedRef idle"
    "\<not> completionNotifiedRef idle"
    by (simp_all add: idle_def useFrame_idle_flags)
  have whole: "completions (runFrames idle (map (\<lambda>c. (True, True, c)) cs)) =
      completions idle + (if \<exists>c\<in>set cs. totalAnimationTime \<le> c - hd cs then 1 else 0)"
    using fresh_session_completions[OF fresh, of cs] by simp
  have step: "completions (after (Suc n)) =
           completions (after n) +
             (if totalAnimationTime \<le> cs ! n - hd cs \<and>
                 (\<forall>k<n. cs ! k - hd cs < totalAnimationTime) then 1 else 0)"
    if n: "n < length cs" for n
  proof -
    have a: "completions (after (Suc n)) =
        completions idle + (if \<exists>k<Suc n. totalAnimationTime \<le> cs ! k - hd cs then 1 else 0)"
      unfolding after_def using n by (intro fresh_session_completions_take[OF fresh]) simp
    have b: "completions (after n) =
        completions idle + (if \<exists>k<n. totalAnimationTime \<le> cs ! k - hd cs then 1 else 0)"
      unfolding after_def using n by (intro fresh_session_completions_take[OF fresh]) simp
    show ?thesis unfolding a b by (auto simp add: less_Suc_eq not_le)
  qed
  have init: "completions (runFrames initialScene (map (\<lambda>c. (True, True, c)) cs)) =
           (if \<exists>c\<in>set cs. totalAnimationTime \<le> c - hd cs then 1 else 0)"
    using fresh_session_completions[OF initialScene_fresh, of cs]
    by (simp add: initialScene_def mountEffect_def mountedScene_def)
  show ?thesis using whole step init by blast
qed


theorem completion_fires_once_witness:
  "(2::nat) < length [1, 4, 31 / 5, 7, 8 :: real] \<and>
   completions (runFrames (useFrame True False 0 initialScene)
      (map (\<lambda>c. (True, True, c)) (take 2 [1, 4, 31 / 5, 7, 8]))) = 0 \<and>
   completions (runFrames (useFrame True False 0 initialScene)
      (map (\<lambda>c. (True, True, c)) (take 3 [1, 4, 31 / 5, 7, 8]))) = 1 \<and>
   completions (runFrames (useFrame True False 0 initialScene)
      (map (\<lambda>c. (True, True, c)) [1, 4, 31 / 5, 7, 8])) = 1"
proof -
  let ?cs = "[1, 4, 31 / 5, 7, 8 :: real]"
  note t = completion_fires_once[of 0 initialScene ?cs]
  have base: "completions (useFrame True False 0 initialScene) = 0"
    by (simp add: useFrame_def primeScene_def idleFrame_def emitBackgroundOpacity_def
        emitEnvironmentProgress_def initialScene_def mountEffect_def mountedScene_def Let_def)
  have steps: "\<forall>n<length ?cs.
      completions (runFrames (useFrame True False 0 initialScene)
         (map (\<lambda>c. (True, True, c)) (take (Suc n) ?cs))) =
      completions (runFrames (useFrame True False 0 initialScene)
         (map (\<lambda>c. (True, True, c)) (take n ?cs))) +
      (if totalAnimationTime \<le> ?cs ! n - hd ?cs \<and>
          (\<forall>k<n. ?cs ! k - hd ?cs < totalAnimationTime) then 1 else 0)"
    using t by - (elim conjE, assumption)
  have whole: "completions (runFrames (useFrame True False 0 initialScene)
      (map (\<lambda>c. (True, True, c)) ?cs)) = 1"
    using t base by (simp add: consts_values)
  have s0: "completions (runFrames (useFrame True False 0 initialScene)
      (map (\<lambda>c. (True, True, c)) (take 1 ?cs))) = 0"
    using steps[rule_format, of 0] base by (simp add: consts_values)
  have s1: "completions (runFrames (useFrame True False 0 initialScene)
      (map (\<lambda>c. (True, True, c)) (take 2 ?cs))) = 0"
    using steps[rule_format, of 1] s0 by (simp add: consts_values)
  have s2: "completions (runFrames (useFrame True False 0 initialScene)
      (map (\<lambda>c. (True, True, c)) (take 3 ?cs))) = 1"
    using steps[rule_format, of 2] s1 by (simp add: consts_values less_Suc_eq numeral_2_eq_2)
  show ?thesis using s1 s2 whole by simp
qed

subsection \<open>Progress signals while playing\<close>

lemma initialScene_signals:
  "backgroundOpacityRef initialScene = 1" "environmentProgressRef initialScene = 0"
  "animationStartRef initialScene = None" "\<not> hasCompletedRef initialScene"
  "backgroundDelivered initialScene = [1]" "environmentDelivered initialScene = [0]"
  by (simp_all add: initialScene_def mountEffect_def mountedScene_def)

text \<open>
  Claim C2, as stated, fails.  Start playing at clock 0 and let the next frame come at
  3.9 s, inside the fade window: the opacity handed to the observer is
  \<open>1 - easeOutCubic 0.9 = 0.001\<close> and the environment progress is \<open>0.999\<close>.  At 5.2 s
  (\<open>totalAnimationTime\<close>) and at every later frame the callback asks for \<open>0\<close> and \<open>1\<close>, but
  both differ from the stored values by no more than the threshold \<open>0.005\<close> of
  \<open>emitBackgroundOpacity\<close> and \<open>emitEnvironmentProgress\<close>, so nothing is delivered: the
  observers keep \<open>0.001\<close> and \<open>0.999\<close>.
\<close>

theorem completion_signals_counterexample:
  "totalAnimationTime \<le> 26 / 5 - 0 \<and>
   animationStartRef (runFrames initialScene
      [(True, True, 0), (True, True, 39 / 10), (True, True, 26 / 5), (True, True, 6)]) = Some 0 \<and>
   backgroundOpacityRef (runFrames initialScene
      [(True, True, 0), (True, True, 39 / 10), (True, True, 26 / 5)]) = 1 / 1000 \<and>
   environmentProgressRef (runFrames initialScene
      [(True, True, 0), (True, True, 39 / 10), (True, True, 26 / 5)]) = 999 / 1000 \<and>
   last (backgroundDelivered (runFrames initialScene
      [(True, True, 0), (True, True, 39 / 10), (True, True, 26 / 5), (True, True, 6)])) = 1 / 1000 \<and>
   last (environmentDelivered (runFrames initialScene
      [(True, True, 0), (True, True, 39 / 10), (True, True, 26 / 5), (True, True, 6)])) = 999 / 1000"
  by (simp add: initialScene_signals useFrame_background useFrame_environment useFrame_refs
      useFrame_backgroundDelivered useFrame_environmentDelivered backgroundTarget_def
      clampedElapsedOf_def startOf_def fadeOpacityAt_def throttle_def clamp_def
      easeOutCubic_def consts_values power3_eq_cube)

lemma backgroundTarget_done:
  assumes "animationStartRef (useFrame True True c st) = Some s" "totalAnimationTime \<le> c - s"
    "hasCompletedRef st \<longrightarrow> animationStartRef st \<noteq> None"
  shows "backgroundTarget True c st = 0"
proof (cases "hasCompletedRef st")
  case True
  then show ?thesis by (simp add: backgroundTarget_def)
next
  case False
  then have "startOf c st = s" using assms(1) by (simp add: useFrame_refs)
  then have "totalAnimationTime \<le> clampedElapsedOf c st"
    using assms(2) by (simp add: clampedElapsedOf_def clamp_total_iff)
  then show ?thesis using False by (simp add: backgroundTarget_def fadeOpacityAt_total)
qed

text \<open>
  Claim C2, amended.  After any run of frames with a non-decreasing clock, a playing
  frame never raises the background opacity and never lowers the environment progress;
  it delivers at most one value to each observer, the new ref, so the delivered
  sequences are monotone and the last delivered value is the ref.  On a frame at or
  after \<open>totalAnimationTime\<close> the opacity becomes exactly 0 if the value before was above
  \<open>0.005\<close> and stays as it was otherwise, the progress becomes exactly 1 if the value
  before was below \<open>0.995\<close> and stays otherwise: the observers then hold an opacity in
  \<open>[0, 0.005]\<close> and a progress in \<open>[0.995, 1]\<close>.
\<close>

theorem playing_tick_signals:
  fixes fs :: "(bool \<times> bool \<times> real) list" and c :: real
  defines "st \<equiv> runFrames initialScene fs"
  defines "st' \<equiv> useFrame True True c (runFrames initialScene fs)"
  assumes clock: "sorted (map (\<lambda>f. snd (snd f)) (fs @ [(True, True, c)]))"
  shows "backgroundOpacityRef st' \<le> backgroundOpacityRef st \<and>
         environmentProgressRef st \<le> environmentProgressRef st' \<and>
         backgroundDelivered st' = backgroundDelivered st @
           (if backgroundOpacityRef st' = backgroundOpacityRef st then []
            else [backgroundOpacityRef st']) \<and>
         environmentDelivered st' = environmentDelivered st @
           (if environmentProgressRef st' = environmentProgressRef st then []
            else [environmentProgressRef st']) \<and>
         last (backgroundDelivered st') = backgroundOpacityRef st' \<and>
         last (environmentDelivered st') = environmentProgressRef st' \<and>
         (\<forall>s. animationStartRef st' = Some s \<and> totalAnimationTime \<le> c - s \<longrightarrow>
            backgroundOpacityRef st' =
              (if 5 / 1000 < backgroundOpacityRef st then 0 else backgroundOpacityRef st) \<and>
            environmentProgressRef st' =
              (if environmentProgressRef st < 995 / 1000 then 1 else environmentProgressRef st) \<and>
            0 \<le> backgroundOpacityRef st' \<and> backgroundOpacityRef st' \<le> 5 / 1000 \<and>
            995 / 1000 \<le> environmentProgressRef st' \<and> environmentProgressRef st' \<le> 1)"
proof -
  have "sorted (map (\<lambda>f. snd (snd f)) fs)" "\<forall>f\<in>set fs. snd (snd f) \<le> c"
    using clock by (auto simp add: sorted_append)
  then have inv: "signalInv c st" unfolding st_def by (rule signalInv_reach)
  have inv': "signalInv c st'" unfolding st'_def st_def[symmetric] using inv by (rule signalInv_playing)
  define v where "v = backgroundTarget True c st"
  define b where "b = backgroundOpacityRef st"
  define e where "e = environmentProgressRef st"
  have v: "0 \<le> v" "v \<le> 1" using backgroundTarget_unit[of True c st] by (simp_all add: v_def)
  have below: "v \<le> b" "e \<le> 1 - v"
    using backgroundTarget_below[OF inv] by (simp_all add: v_def b_def e_def)
  have b: "0 \<le> b" "b \<le> 1" and e: "0 \<le> e" "e \<le> 1"
    using inv by (simp_all add: signalInv_def b_def e_def)
  have bg': "backgroundOpacityRef st' = throttle b v"
    and env': "environmentProgressRef st' = throttle e (1 - v)"
    by (simp_all add: st'_def st_def[symmetric] useFrame_background useFrame_environment
        v_def b_def e_def)
  have mono: "backgroundOpacityRef st' \<le> b" "e \<le> environmentProgressRef st'"
    using throttle_down[of v b] throttle_up[of e "1 - v"] v below b e by (simp_all add: bg' env')
  have dl: "backgroundDelivered st' = backgroundDelivered st @
           (if backgroundOpacityRef st' = backgroundOpacityRef st then []
            else [backgroundOpacityRef st'])"
      "environmentDelivered st' = environmentDelivered st @
           (if environmentProgressRef st' = environmentProgressRef st then []
            else [environmentProgressRef st'])"
    unfolding st'_def st_def[symmetric]
    by (rule useFrame_backgroundDelivered, rule useFrame_environmentDelivered)
  have lst: "last (backgroundDelivered st') = backgroundOpacityRef st'"
    "last (environmentDelivered st') = environmentProgressRef st'"
    using inv' by (simp_all add: signalInv_def)
  have fin: "backgroundOpacityRef st' = (if 5 / 1000 < b then 0 else b) \<and>
            environmentProgressRef st' = (if e < 995 / 1000 then 1 else e) \<and>
            0 \<le> backgroundOpacityRef st' \<and> backgroundOpacityRef st' \<le> 5 / 1000 \<and>
            995 / 1000 \<le> environmentProgressRef st' \<and> environmentProgressRef st' \<le> 1"
    if "animationStartRef st' = Some s" "totalAnimationTime \<le> c - s" for s
  proof -
    have "hasCompletedRef st \<longrightarrow> animationStartRef st \<noteq> None"
      using inv by (cases "animationStartRef st") (simp_all add: signalInv_def)
    then have "v = 0"
      using that backgroundTarget_done[of c st s] by (simp add: v_def st'_def st_def[symmetric])
    then show ?thesis
      using b e throttle_near_zero[of b] throttle_near_one[of e]
      by (auto simp add: bg' env' throttle_def clamp_def)
  qed
  show ?thesis
    using mono dl lst fin unfolding b_def e_def by blast
qed

theorem playing_tick_signals_witness:
  "sorted (map (\<lambda>f. snd (snd f))
      ([(True, True, 0 :: real), (True, True, 39 / 10)] @ [(True, True, 26 / 5)])) \<and>
   animationStartRef (useFrame True True (26 / 5)
      (runFrames initialScene [(True, True, 0), (True, True, 39 / 10)])) = Some 0 \<and>
   totalAnimationTime \<le> 26 / 5 - 0 \<and>
   backgroundOpacityRef (useFrame True True (26 / 5)
      (runFrames initialScene [(True, True, 0), (True, True, 39 / 10)])) \<le>
     backgroundOpacityRef (runFrames initialScene [(True, True, 0), (True, True, 39 / 10)]) \<and>
   0 \<le> backgroundOpacityRef (useFrame True True (26 / 5)
      (runFrames initialScene [(True, True, 0), (True, True, 39 / 10)])) \<and>
   backgroundOpacityRef (useFrame True True (26 / 5)
      (runFrames initialScene [(True, True, 0), (True, True, 39 / 10)])) \<le> 5 / 1000 \<and>
   995 / 1000 \<le> environmentProgressRef (useFrame True True (26 / 5)
      (runFrames initialScene [(True, True, 0), (True, True, 39 / 10)]))"
proof -
  let ?fs = "[(True, True, 0 :: real), (True, True, 39 / 10)]"
  let ?st' = "useFrame True True (26 / 5) (runFrames initialScene ?fs)"
  have h1: "sorted (map (\<lambda>f. snd (snd f)) (?fs @ [(True, True, 26 / 5)]))" by simp
  have h2: "animationStartRef ?st' = Some 0"
    by (simp add: useFrame_refs startOf_def initialScene_def mountEffect_def mountedScene_def
        clampedElapsedOf_def clamp_def consts_values)
  have h3: "totalAnimationTime \<le> 26 / 5 - 0" by (simp add: consts_values)
  note t = playing_tick_signals[OF h1]
  have a: "backgroundOpacityRef ?st' \<le> backgroundOpacityRef (runFrames initialScene ?fs)"
    using t by - (elim conjE, assumption)
  have "\<forall>s. animationStartRef ?st' = Some s \<and> totalAnimationTime \<le> 26 / 5 - s \<longrightarrow>
      backgroundOpacityRef ?st' =
        (if 5 / 1000 < backgroundOpacityRef (runFrames initialScene ?fs) then 0
         else backgroundOpacityRef (runFrames initialScene ?fs)) \<and>
      environmentProgressRef ?st' =
        (if environmentProgressRef (runFrames initialScene ?fs) < 995 / 1000 then 1
         else environmentProgressRef (runFrames initialScene ?fs)) \<and>
      0 \<le> backgroundOpacityRef ?st' \<and> backgroundOpacityRef ?st' \<le> 5 / 1000 \<and>
      995 / 1000 \<le> environmentProgressRef ?st' \<and> environmentProgressRef ?st' \<le> 1"
    using t by - (elim conjE, assumption)
  from this[rule_format, of 0, OF conjI[OF h2 h3]]
  have b: "0 \<le> backgroundOpacityRef ?st'" "backgroundOpacityRef ?st' \<le> 5 / 1000"
    "995 / 1000 \<le> environmentProgressRef ?st'"
    by - (elim conjE, assumption)+
  show ?thesis using h1 h2 h3 a b by - (intro conjI, assumption+)
qed

subsection \<open>Cake descent and candle visibility\<close>

text \<open>
  \<open>cakeYAt e\<close> is the height the callback gives the cake at elapsed time \<open>e\<close>, and
  \<open>poseInv s c\<close> ties the pose of a scene to the clock reading \<open>c\<close> of its last frame in a
  session started at \<open>s\<close>.
\<close>

definition cakeYAt :: "real \<Rightarrow> real" where
  "cakeYAt e =
     lerp CAKE_START_Y CAKE_END_Y
       (easeOutCubic (clamp (clamp e 0 totalAnimationTime / CAKE_DESCENT_DURATION) 0 1))"

lemma cakeYAt_antimono: assumes "a \<le> b" shows "cakeYAt b \<le> cakeYAt a"
proof -
  let ?p = "\<lambda>e. clamp (clamp e 0 totalAnimationTime / CAKE_DESCENT_DURATION) 0 1"
  have "clamp a 0 totalAnimationTime \<le> clamp b 0 totalAnimationTime"
    using assms by (rule clamp_mono)
  then have "?p a \<le> ?p b" by (intro clamp_mono) (simp add: consts_values)
  then have "easeOutCubic (?p a) \<le> easeOutCubic (?p b)"
    using clamp_bounds[of 0 1] by (intro easeOutCubic_mono) auto
  then show ?thesis by (simp add: cakeYAt_def lerp_def consts_values)
qed

lemma cakeYAt_bounds: "0 \<le> cakeYAt e \<and> cakeYAt e \<le> 10"
  using easeOutCubic_bounds[of "clamp (clamp e 0 totalAnimationTime / CAKE_DESCENT_DURATION) 0 1"]
    clamp_bounds[of 0 1 "clamp e 0 totalAnimationTime / CAKE_DESCENT_DURATION"]
  by (simp add: cakeYAt_def lerp_def consts_values)

lemma cakeYAt_start: "e \<le> 0 \<Longrightarrow> cakeYAt e = CAKE_START_Y"
  by (simp add: cakeYAt_def lerp_def clamp_def easeOutCubic_def consts_values)

lemma cakeYAt_end: "CAKE_DESCENT_DURATION \<le> e \<Longrightarrow> cakeYAt e = CAKE_END_Y"
  by (auto simp add: cakeYAt_def lerp_def clamp_def easeOutCubic_def consts_values min_def max_def)

definition poseInv :: "real \<Rightarrow> real \<Rightarrow> scene \<Rightarrow> bool" where
  "poseInv s c st =
     (animationStartRef st = Some s \<and> s \<le> c \<and>
      vy (cakePosition st) = cakeYAt (c - s) \<and>
      candleVisible st = (CANDLE_DROP_START \<le> c - s) \<and>
      (hasCompletedRef st \<longrightarrow> totalAnimationTime \<le> c - s))"


lemma cake_proj [simp]:
  "cakePosition (emitBackgroundOpacity v st) = cakePosition st"
  "cakePosition (emitEnvironmentProgress v st) = cakePosition st"
  "cakePosition (notifyCompletion st) = cakePosition st"
  "cakePosition (fadeSignals ce st) = cakePosition st"
  "cakePosition (candlePose ce st) = cakePosition st"
  "cakePosition (tablePose ce st) = cakePosition st"
  "cakePosition (cakePose ce st) =
     vec 0 (lerp CAKE_START_Y CAKE_END_Y
       (easeOutCubic (clamp (ce / CAKE_DESCENT_DURATION) 0 1))) 0"
  "cakePosition (completionSnap ce st) =
     (if totalAnimationTime \<le> ce then vec 0 CAKE_END_Y 0 else cakePosition st)"
  by (simp_all add: emitBackgroundOpacity_def emitEnvironmentProgress_def notifyCompletion_def
      fadeSignals_def candlePose_def tablePose_def cakePose_def completionSnap_def Let_def)

lemma candle_proj [simp]:
  "candleVisible (emitBackgroundOpacity v st) = candleVisible st"
  "candleVisible (emitEnvironmentProgress v st) = candleVisible st"
  "candleVisible (notifyCompletion st) = candleVisible st"
  "candleVisible (fadeSignals ce st) = candleVisible st"
  "candleVisible (candlePose ce st) = (CANDLE_DROP_START \<le> ce)"
  "candleVisible (completionSnap ce st) = (totalAnimationTime \<le> ce \<or> candleVisible st)"
  by (simp_all add: emitBackgroundOpacity_def emitEnvironmentProgress_def notifyCompletion_def
      fadeSignals_def candlePose_def completionSnap_def Let_def)

lemma vy_vec [simp]: "vy (vec a b c) = b"
  by (simp add: vec_def)

lemma completedFrame_pose:
  "cakePosition (completedFrame st) = cakePosition st"
  "candleVisible (completedFrame st) = candleVisible st"
  by (simp_all add: completedFrame_def)

lemma primeScene_primed: "hasPrimedRef st \<Longrightarrow> primeScene st = st"
  by (simp add: primeScene_def)

lemma playingFrame_pose:
  "vy (cakePosition (playingFrame c st)) = cakeYAt (c - startOf c st)"
  "candleVisible (playingFrame c st) = (CANDLE_DROP_START \<le> c - startOf c st)"
proof -
  let ?e = "c - startOf c st"
  let ?ce = "clamp ?e 0 totalAnimationTime"
  have snap: "totalAnimationTime \<le> ?ce \<Longrightarrow> cakeYAt ?e = CAKE_END_Y"
    unfolding clamp_total_iff by (intro cakeYAt_end) (simp add: consts_values)
  show "vy (cakePosition (playingFrame c st)) = cakeYAt ?e"
    using snap
    by (simp add: playingFrame_def Let_def startOf_def[symmetric]) (simp add: cakeYAt_def)
  have "(CANDLE_DROP_START \<le> ?ce) = (CANDLE_DROP_START \<le> ?e)"
    "totalAnimationTime \<le> ?ce \<Longrightarrow> CANDLE_DROP_START \<le> ?e"
    by (auto simp add: clamp_def consts_values min_def max_def split: if_splits)
  then show "candleVisible (playingFrame c st) = (CANDLE_DROP_START \<le> ?e)"
    by (auto simp add: playingFrame_def Let_def startOf_def[symmetric])
qed

lemma startOf_primeScene [simp]: "startOf c (primeScene st) = startOf c st"
  by (simp add: startOf_def)

lemma useFrame_playing_pose:
  "vy (cakePosition (useFrame True True c st)) =
     (if hasCompletedRef st then vy (cakePosition (primeScene st)) else cakeYAt (c - startOf c st))"
  "candleVisible (useFrame True True c st) =
     (if hasCompletedRef st then candleVisible (primeScene st)
      else CANDLE_DROP_START \<le> c - startOf c st)"
  by (simp_all add: useFrame_def Let_def playingFrame_pose completedFrame_pose)

lemma poseInv_first:
  assumes "animationStartRef st = None" "\<not> hasCompletedRef st"
  shows "poseInv c c (useFrame True True c st)"
  using assms total_pos
  by (simp add: poseInv_def useFrame_playing_pose useFrame_refs startOf_def clampedElapsedOf_def
      clamp_def)

lemma poseInv_step:
  assumes inv: "poseInv s c st" and le: "c \<le> c'" and primed: "hasPrimedRef st"
  shows "poseInv s c' (useFrame True True c' st)"
proof (cases "hasCompletedRef st")
  case True
  then have "totalAnimationTime \<le> c - s" using inv by (simp add: poseInv_def)
  then have "cakeYAt (c - s) = CAKE_END_Y" "cakeYAt (c' - s) = CAKE_END_Y"
    "CANDLE_DROP_START \<le> c - s" "CANDLE_DROP_START \<le> c' - s"
    using le by (simp_all add: cakeYAt_end consts_values)
  then show ?thesis using inv le True primed
    by (simp add: poseInv_def useFrame_playing_pose useFrame_refs primeScene_primed)
next
  case False
  have s: "startOf c' st = s" using inv by (simp add: poseInv_def startOf_def)
  show ?thesis using inv le False s
    by (simp add: poseInv_def useFrame_playing_pose useFrame_refs clampedElapsedOf_def
        clamp_total_iff)
qed

lemma runFrames_append: "runFrames st (fs @ gs) = runFrames (runFrames st fs) gs"
  by (induction fs arbitrary: st) auto

lemma runFrames_primed:
  "hasPrimedRef st \<Longrightarrow> hasPrimedRef (runFrames st (map (\<lambda>c. (True, True, c)) cs))"
  by (induction cs arbitrary: st) (simp_all add: useFrame_primed)

lemma poseInv_session:
  assumes fresh: "animationStartRef st = None" "\<not> hasCompletedRef st"
    and sorted: "sorted cs" and n: "n < length cs"
  shows "poseInv (hd cs) (cs ! n)
           (runFrames st (map (\<lambda>c. (True, True, c)) (take (Suc n) cs))) \<and>
         hasPrimedRef (runFrames st (map (\<lambda>c. (True, True, c)) (take (Suc n) cs)))"
  using n
proof (induction n)
  case 0
  then have "take (Suc 0) cs = [hd cs]" "cs ! 0 = hd cs"
    by (cases cs; simp)+
  then show ?case using poseInv_first[OF fresh, of "hd cs"] by (simp add: useFrame_primed)
next
  case (Suc n)
  let ?prev = "runFrames st (map (\<lambda>c. (True, True, c)) (take (Suc n) cs))"
  have t: "take (Suc (Suc n)) cs = take (Suc n) cs @ [cs ! Suc n]"
    using Suc.prems by (simp add: take_Suc_conv_app_nth)
  have le: "cs ! n \<le> cs ! Suc n"
    using sorted Suc.prems by (simp add: sorted_iff_nth_mono)
  have "poseInv (hd cs) (cs ! n) ?prev" "hasPrimedRef ?prev"
    using Suc by simp_all
  then have "poseInv (hd cs) (cs ! Suc n) (useFrame True True (cs ! Suc n) ?prev)"
    using le by (intro poseInv_step)
  then show ?case unfolding t by (simp add: runFrames_append useFrame_primed)
qed

text \<open>
  Claim C6.  Replay a play session (the playing frames after an idle frame) with clock
  readings \<open>cs\<close> that never decrease; the elapsed time of frame \<open>n\<close> is \<open>cs ! n - hd cs\<close>.
  The cake's y position never increases from one frame to a later one, stays between the
  end height 0 and the start height 10, is the start height at elapsed time 0 and the
  end height from \<open>CAKE_DESCENT_DURATION\<close> on (so also at \<open>totalAnimationTime\<close>), and the
  candle is visible after a frame exactly when its elapsed time has reached
  \<open>CANDLE_DROP_START\<close>.
\<close>

theorem cake_descends_candle_appears:
  fixes st0 :: scene and c0 :: real and cs :: "real list"
  defines "idle \<equiv> useFrame True False c0 st0"
  defines "after \<equiv> \<lambda>n. runFrames idle (map (\<lambda>c. (True, True, c)) (take (Suc n) cs))"
  assumes clock: "sorted cs"
  shows "(\<forall>i j. i \<le> j \<and> j < length cs \<longrightarrow>
            vy (cakePosition (after j)) \<le> vy (cakePosition (after i))) \<and>
         (\<forall>n<length cs.
            CAKE_END_Y \<le> vy (cakePosition (after n)) \<and>
            vy (cakePosition (after n)) \<le> CAKE_START_Y \<and>
            (cs ! n - hd cs = 0 \<longrightarrow> vy (cakePosition (after n)) = CAKE_START_Y) \<and>
            (CAKE_DESCENT_DURATION \<le> cs ! n - hd cs \<longrightarrow>
               vy (cakePosition (after n)) = CAKE_END_Y) \<and>
            (candleVisible (after n) \<longleftrightarrow> CANDLE_DROP_START \<le> cs ! n - hd cs))"
proof -
  have fresh: "animationStartRef idle = None" "\<not> hasCompletedRef idle"
    by (simp_all add: idle_def useFrame_idle_flags)
  have inv: "poseInv (hd cs) (cs ! n) (after n)" if "n < length cs" for n
    unfolding after_def using poseInv_session[OF fresh clock that] by simp
  have y: "vy (cakePosition (after n)) = cakeYAt (cs ! n - hd cs)"
    and vis: "candleVisible (after n) = (CANDLE_DROP_START \<le> cs ! n - hd cs)"
    if "n < length cs" for n
    using inv[OF that] by (simp_all add: poseInv_def)
  have mono: "vy (cakePosition (after j)) \<le> vy (cakePosition (after i))"
    if "i \<le> j" "j < length cs" for i j
  proof -
    have "cs ! i \<le> cs ! j" using clock that by (simp add: sorted_iff_nth_mono)
    then have "cakeYAt (cs ! j - hd cs) \<le> cakeYAt (cs ! i - hd cs)"
      by (intro cakeYAt_antimono) simp
    then show ?thesis using that by (simp add: y)
  qed
  have pt: "CAKE_END_Y \<le> vy (cakePosition (after n)) \<and>
            vy (cakePosition (after n)) \<le> CAKE_START_Y \<and>
            (cs ! n - hd cs = 0 \<longrightarrow> vy (cakePosition (after n)) = CAKE_START_Y) \<and>
            (CAKE_DESCENT_DURATION \<le> cs ! n - hd cs \<longrightarrow>
               vy (cakePosition (after n)) = CAKE_END_Y) \<and>
            (candleVisible (after n) \<longleftrightarrow> CANDLE_DROP_START \<le> cs ! n - hd cs)"
    if "n < length cs" for n
    using cakeYAt_bounds[of "cs ! n - hd cs"] cakeYAt_start[of 0]
      cakeYAt_end[of "cs ! n - hd cs"]
    by (simp add: y[OF that] vis[OF that] consts_values)
  show ?thesis using mono pt by blast
qed

theorem cake_descends_candle_appears_witness:
  "sorted [1, 2, 5, 7 :: real] \<and>
   vy (cakePosition (runFrames (useFrame True False 0 initialScene)
        (map (\<lambda>c. (True, True, c)) (take (Suc 1) [1, 2, 5, 7])))) \<le>
   vy (cakePosition (runFrames (useFrame True False 0 initialScene)
        (map (\<lambda>c. (True, True, c)) (take (Suc 0) [1, 2, 5, 7])))) \<and>
   vy (cakePosition (runFrames (useFrame True False 0 initialScene)
        (map (\<lambda>c. (True, True, c)) (take (Suc 0) [1, 2, 5, 7])))) = CAKE_START_Y \<and>
   vy (cakePosition (runFrames (useFrame True False 0 initialScene)
        (map (\<lambda>c. (True, True, c)) (take (Suc 3) [1, 2, 5, 7])))) = CAKE_END_Y \<and>
   \<not> candleVisible (runFrames (useFrame True False 0 initialScene)
        (map (\<lambda>c. (True, True, c)) (take (Suc 1) [1, 2, 5, 7]))) \<and>
   candleVisible (runFrames (useFrame True False 0 initialScene)
        (map (\<lambda>c. (True, True, c)) (take (Suc 2) [1, 2, 5, 7])))"
proof -
  let ?cs = "[1, 2, 5, 7 :: real]"
  let ?after = "\<lambda>n. runFrames (useFrame True False 0 initialScene)
        (map (\<lambda>c. (True, True, c)) (take (Suc n) ?cs))"
  have h: "sorted ?cs" by simp
  note t = cake_descends_candle_appears[OF h, of 0 initialScene]
  have mono: "\<forall>i j. i \<le> j \<and> j < length ?cs \<longrightarrow>
            vy (cakePosition (?after j)) \<le> vy (cakePosition (?after i))"
    using t by - (elim conjE, assumption)
  have pt: "\<forall>n<length ?cs.
            CAKE_END_Y \<le> vy (cakePosition (?after n)) \<and>
            vy (cakePosition (?after n)) \<le> CAKE_START_Y \<and>
            (?cs ! n - hd ?cs = 0 \<longrightarrow> vy (cakePosition (?after n)) = CAKE_START_Y) \<and>
            (CAKE_DESCENT_DURATION \<le> ?cs ! n - hd ?cs \<longrightarrow>
               vy (cakePosition (?after n)) = CAKE_END_Y) \<and>
            (candleVisible (?after n) \<longleftrightarrow> CANDLE_DROP_START \<le> ?cs ! n - hd ?cs)"
    using t by - (elim conjE, assumption)
  have a: "vy (cakePosition (?after 1)) \<le> vy (cakePosition (?after 0))"
    by (rule mono[rule_format]) simp
  have n0: "(0::nat) < length ?cs" and n1: "(1::nat) < length ?cs"
    and n2: "(2::nat) < length ?cs" and n3: "(3::nat) < length ?cs" by simp_all
  have e0: "?cs ! 0 - hd ?cs = 0" by simp
  have e3: "CAKE_DESCENT_DURATION \<le> ?cs ! 3 - hd ?cs" by (simp add: consts_values)
  have e1: "\<not> CANDLE_DROP_START \<le> ?cs ! 1 - hd ?cs" by (simp add: consts_values)
  have e2: "CANDLE_DROP_START \<le> ?cs ! 2 - hd ?cs" by (simp add: consts_values)
  have b: "vy (cakePosition (?after 0)) = CAKE_START_Y"
    using pt[rule_format, OF n0, THEN conjunct2, THEN conjunct2, THEN conjunct1, THEN mp, OF e0] .
  have c: "vy (cakePosition (?after 3)) = CAKE_END_Y"
    using pt[rule_format, OF n3, THEN conjunct2, THEN conjunct2, THEN conjunct2,
        THEN conjunct1, THEN mp, OF e3] .
  have d: "\<not> candleVisible (?after 1)"
    using pt[rule_format, OF n1, THEN conjunct2, THEN conjunct2, THEN conjunct2,
        THEN conjunct2, THEN iffD1] e1 by - (rule notI, erule notE, assumption)
  have e: "candleVisible (?after 2)"
    using pt[rule_format, OF n2, THEN conjunct2, THEN conjunct2, THEN conjunct2,
        THEN conjunct2, THEN iffD2, OF e2] .
  show ?thesis using h a b c d e by - (intro conjI, assumption+)
qed

section \<open>Ambient particle field (src/src/App.tsx, FallingSparkles)\<close>

subsection \<open>Randomness, time and damping\<close>

text \<open>
  \<open>Math.random()\<close> is a stream of numbers, each in \<open>[0, 1)\<close>, read through a cursor that
  every call advances: a component's state carries the number of draws it has made.
  \<open>MathUtils.damp\<close> of three.js is \<open>lerp(x, y, 1 - exp(-lambda * dt))\<close> with three's
  \<open>lerp(x, y, t) = (1 - t) * x + t * y\<close>.  Typed arrays are lists of fixed length; the
  rounding of a \<open>Float32Array\<close> store is not modelled.
\<close>

type_synonym random = "nat \<Rightarrow> real"

definition damp :: "real \<Rightarrow> real \<Rightarrow> real \<Rightarrow> real \<Rightarrow> real" where
  "damp x y lambda dt = (1 - (1 - exp (- lambda * dt))) * x + (1 - exp (- lambda * dt)) * y"

subsection \<open>Constants (lines 739-747) and state\<close>

definition PARTICLE_COUNT :: nat where "PARTICLE_COUNT = 400"
definition AREA_X :: real where "AREA_X = 20"
definition AREA_Z :: real where "AREA_Z = 20"
definition TOP_Y :: real where "TOP_Y = 12"
definition BOTTOM_Y :: real where "BOTTOM_Y = - 2"
definition FALL_SPEED_MIN :: real where "FALL_SPEED_MIN = 8 / 10"
definition FALL_SPEED_MAX :: real where "FALL_SPEED_MAX = 2"
definition DRIFT_SPEED :: real where "DRIFT_SPEED = 3 / 10"

lemmas sparkle_consts =
  PARTICLE_COUNT_def AREA_X_def AREA_Z_def TOP_Y_def BOTTOM_Y_def
  FALL_SPEED_MIN_def FALL_SPEED_MAX_def DRIFT_SPEED_def

record sparkles =
  positions :: "real list"
  colors :: "real list"
  velocities :: "real list"
  opacity :: real
  draws :: nat

subsection \<open>Initialisation (lines 753-791)\<close>

text \<open>One round of the initialisation loop, for particle \<open>i\<close>.\<close>

definition initParticle :: "random \<Rightarrow> sparkles \<Rightarrow> nat \<Rightarrow> sparkles" where
  "initParticle rnd st i =
     (let i3 = i * 3; k = draws st;
          pos = (positions st)
                  [i3 := (rnd k - 1 / 2) * AREA_X,
                   i3 + 1 := BOTTOM_Y + rnd (k + 1) * (TOP_Y - BOTTOM_Y),
                   i3 + 2 := (rnd (k + 2) - 1 / 2) * AREA_Z];
          palette = rnd (k + 3);
          (col, k') =
            (if palette < 4 / 10
             then ((colors st)
                     [i3 := 1, i3 + 1 := 9 / 10 + rnd (k + 4) * (1 / 10),
                      i3 + 2 := 6 / 10 + rnd (k + 5) * (3 / 10)], k + 6)
             else if palette < 7 / 10
             then ((colors st)
                     [i3 := 1, i3 + 1 := 7 / 10 + rnd (k + 4) * (2 / 10),
                      i3 + 2 := 8 / 10 + rnd (k + 5) * (2 / 10)], k + 6)
             else ((colors st)[i3 := 1, i3 + 1 := 1, i3 + 2 := 1], k + 4));
          vel = (velocities st)
                  [i3 := (rnd k' - 1 / 2) * DRIFT_SPEED,
                   i3 + 1 := - (FALL_SPEED_MIN + rnd (k' + 1) * (FALL_SPEED_MAX - FALL_SPEED_MIN)),
                   i3 + 2 := (rnd (k' + 2) - 1 / 2) * DRIFT_SPEED]
      in st\<lparr>positions := pos, colors := col, velocities := vel, draws := k' + 3\<rparr>)"

text \<open>
  The three arrays are created zero-filled with \<open>PARTICLE_COUNT * 3\<close> entries; the points
  material starts with \<open>opacity = 0\<close> (line 848).
\<close>

definition initSparkles :: "random \<Rightarrow> nat \<Rightarrow> sparkles" where
  "initSparkles rnd drawn =
     foldl (initParticle rnd)
       \<lparr>positions = replicate (PARTICLE_COUNT * 3) 0,
        colors = replicate (PARTICLE_COUNT * 3) 0,
        velocities = replicate (PARTICLE_COUNT * 3) 0,
        opacity = 0, draws = drawn\<rparr>
       [0..<PARTICLE_COUNT]"

subsection \<open>The frame callback (lines 793-828)\<close>

text \<open>
  Lines 809-825, one round of the loop for particle \<open>i\<close>; \<open>now i\<close> is what \<open>Date.now()\<close>
  returns in that round.
\<close>

definition sparkleStep :: "real \<Rightarrow> (nat \<Rightarrow> real) \<Rightarrow> random \<Rightarrow> sparkles \<Rightarrow> nat \<Rightarrow> sparkles" where
  "sparkleStep delta now rnd st i =
     (let i3 = i * 3;
          sway = sin (now i * (1 / 1000) + real i) * (15 / 100);
          vel = velocities st;
          p0 = positions st;
          p1 = p0[i3 := p0 ! i3 + (vel ! i3 + sway) * delta];
          p2 = p1[i3 + 1 := p1 ! (i3 + 1) + vel ! (i3 + 1) * delta];
          p3 = p2[i3 + 2 := p2 ! (i3 + 2) + (vel ! (i3 + 2) + sway * (1 / 2)) * delta]
      in if p3 ! (i3 + 1) < BOTTOM_Y
         then let k = draws st in
           st\<lparr>positions :=
                  p3[i3 := (rnd k - 1 / 2) * AREA_X,
                     i3 + 1 := TOP_Y + rnd (k + 1) * 2,
                     i3 + 2 := (rnd (k + 2) - 1 / 2) * AREA_Z],
              draws := k + 3\<rparr>
         else st\<lparr>positions := p3\<rparr>)"

text \<open>
  The callback.  \<open>mounted\<close> says that the geometry and material refs are set (line 796);
  \<open>rawDelta\<close> is the frame delta of the render host.
\<close>

definition sparklesFrame ::
    "bool \<Rightarrow> bool \<Rightarrow> real \<Rightarrow> (nat \<Rightarrow> real) \<Rightarrow> random \<Rightarrow> sparkles \<Rightarrow> sparkles" where
  "sparklesFrame mounted isActive rawDelta now rnd st =
     (if \<not> mounted then st
      else let delta = min rawDelta (5 / 100) in
        if \<not> isActive then st\<lparr>opacity := damp (opacity st) 0 4 delta\<rparr>
        else foldl (sparkleStep delta now rnd)
               (st\<lparr>opacity := damp (opacity st) (6 / 10) 2 delta\<rparr>)
               [0..<PARTICLE_COUNT])"

text \<open>A run of frames, each given as (mounted, isActive, rawDelta, readings of \<open>Date.now()\<close>).\<close>

fun runSparkles ::
    "random \<Rightarrow> sparkles \<Rightarrow> (bool \<times> bool \<times> real \<times> (nat \<Rightarrow> real)) list \<Rightarrow> sparkles" where
  "runSparkles rnd st [] = st"
| "runSparkles rnd st ((m, a, d, now) # fs) = runSparkles rnd (sparklesFrame m a d now rnd st) fs"

subsection \<open>The pool keeps its size and respawns at the top\<close>

lemma sparkleStep_frame [simp]:
  "length (positions (sparkleStep d now rnd st i)) = length (positions st)"
  "velocities (sparkleStep d now rnd st i) = velocities st"
  "colors (sparkleStep d now rnd st i) = colors st"
  "opacity (sparkleStep d now rnd st i) = opacity st"
  by (simp_all add: sparkleStep_def Let_def)

lemma sparkleStep_other:
  "j < i * 3 \<or> i * 3 + 3 \<le> j \<Longrightarrow>
     positions (sparkleStep d now rnd st i) ! j = positions st ! j"
  by (auto simp add: sparkleStep_def Let_def)

lemma sparkleStep_y:
  assumes "i * 3 + 2 < length (positions st)"
  shows "positions (sparkleStep d now rnd st i) ! (i * 3 + 1) =
     (if positions st ! (i * 3 + 1) + velocities st ! (i * 3 + 1) * d < BOTTOM_Y
      then TOP_Y + rnd (draws st + 1) * 2
      else positions st ! (i * 3 + 1) + velocities st ! (i * 3 + 1) * d)"
  using assms by (simp add: sparkleStep_def Let_def)

lemma sparkleLoop_frame [simp]:
  "length (positions (foldl (sparkleStep d now rnd) st is)) = length (positions st)"
  "velocities (foldl (sparkleStep d now rnd) st is) = velocities st"
  "colors (foldl (sparkleStep d now rnd) st is) = colors st"
  "opacity (foldl (sparkleStep d now rnd) st is) = opacity st"
  by (induction "is" arbitrary: st) simp_all

lemma sparkleLoop_untouched:
  "n * 3 \<le> j \<Longrightarrow> positions (foldl (sparkleStep d now rnd) st [0..<n]) ! j = positions st ! j"
  by (induction n) (simp_all add: sparkleStep_other)

lemma sparkleLoop_y:
  assumes "n * 3 \<le> length (positions st)" "i < n"
  shows "\<exists>k. positions (foldl (sparkleStep d now rnd) st [0..<n]) ! (i * 3 + 1) =
     (if positions st ! (i * 3 + 1) + velocities st ! (i * 3 + 1) * d < BOTTOM_Y
      then TOP_Y + rnd k * 2
      else positions st ! (i * 3 + 1) + velocities st ! (i * 3 + 1) * d)"
  using assms
proof (induction n)
  case 0
  then show ?case by simp
next
  case (Suc n)
  let ?mid = "foldl (sparkleStep d now rnd) st [0..<n]"
  show ?case
  proof (cases "i < n")
    case True
    then obtain k where "positions ?mid ! (i * 3 + 1) =
       (if positions st ! (i * 3 + 1) + velocities st ! (i * 3 + 1) * d < BOTTOM_Y
        then TOP_Y + rnd k * 2
        else positions st ! (i * 3 + 1) + velocities st ! (i * 3 + 1) * d)"
      using Suc by auto
    moreover have "positions (sparkleStep d now rnd ?mid n) ! (i * 3 + 1) = positions ?mid ! (i * 3 + 1)"
      using True by (intro sparkleStep_other) simp
    ultimately show ?thesis by auto
  next
    case False
    then have i: "i = n" using Suc.prems by simp
    have m: "positions ?mid ! (n * 3 + 1) = positions st ! (n * 3 + 1)"
      by (intro sparkleLoop_untouched) simp
    have v: "velocities ?mid = velocities st" by simp
    have "n * 3 + 2 < length (positions ?mid)" using Suc.prems by simp
    then have "positions (sparkleStep d now rnd ?mid n) ! (n * 3 + 1) =
       (if positions ?mid ! (n * 3 + 1) + velocities ?mid ! (n * 3 + 1) * d < BOTTOM_Y
        then TOP_Y + rnd (draws ?mid + 1) * 2
        else positions ?mid ! (n * 3 + 1) + velocities ?mid ! (n * 3 + 1) * d)"
      by (rule sparkleStep_y)
    then have "positions (foldl (sparkleStep d now rnd) st [0..<Suc n]) ! (n * 3 + 1) =
       (if positions st ! (n * 3 + 1) + velocities st ! (n * 3 + 1) * d < BOTTOM_Y
        then TOP_Y + rnd (draws ?mid + 1) * 2
        else positions st ! (n * 3 + 1) + velocities st ! (n * 3 + 1) * d)"
      unfolding m v by simp
    then show ?thesis unfolding i by (rule exI)
  qed
qed

lemma sparklesFrame_frame [simp]:
  "length (positions (sparklesFrame m a rd now rnd st)) = length (positions st)"
  "velocities (sparklesFrame m a rd now rnd st) = velocities st"
  "colors (sparklesFrame m a rd now rnd st) = colors st"
  by (simp_all add: sparklesFrame_def Let_def)

lemma runSparkles_frame [simp]:
  "length (positions (runSparkles rnd st fs)) = length (positions st)"
  "velocities (runSparkles rnd st fs) = velocities st"
  "colors (runSparkles rnd st fs) = colors st"
  by (induction fs arbitrary: st) auto

lemma initParticle_length [simp]:
  "length (positions (initParticle rnd st i)) = length (positions st)"
  "length (velocities (initParticle rnd st i)) = length (velocities st)"
  "length (colors (initParticle rnd st i)) = length (colors st)"
  by (auto simp add: initParticle_def Let_def split: prod.splits if_splits)

lemma initLoop_length [simp]:
  "length (positions (foldl (initParticle rnd) st is)) = length (positions st)"
  "length (velocities (foldl (initParticle rnd) st is)) = length (velocities st)"
  "length (colors (foldl (initParticle rnd) st is)) = length (colors st)"
  by (induction "is" arbitrary: st) simp_all

lemma initSparkles_length:
  "length (positions (initSparkles rnd k)) = PARTICLE_COUNT * 3"
  "length (velocities (initSparkles rnd k)) = PARTICLE_COUNT * 3"
  "length (colors (initSparkles rnd k)) = PARTICLE_COUNT * 3"
  by (simp_all add: initSparkles_def)

text \<open>
  Claim C10.  The pool is created with \<open>PARTICLE_COUNT = 400\<close> particles (three
  coordinates each) and keeps that size over any run of frames.  In an active frame, a
  particle whose y coordinate after the move of that frame is below \<open>BOTTOM_Y\<close> ends the
  frame at \<open>y \<ge> TOP_Y\<close>; any other particle ends it where the move put it; so no particle
  is below \<open>BOTTOM_Y\<close> when the frame is over.  (\<open>Math.random()\<close> is never negative.)
\<close>

theorem sparkle_pool_invariant:
  fixes rnd :: random and fs :: "(bool \<times> bool \<times> real \<times> (nat \<Rightarrow> real)) list"
    and k0 :: nat and rawDelta :: real and now :: "nat \<Rightarrow> real"
  defines "st \<equiv> runSparkles rnd (initSparkles rnd k0) fs"
  defines "st' \<equiv> sparklesFrame True True rawDelta now rnd (runSparkles rnd (initSparkles rnd k0) fs)"
  assumes rnd: "\<forall>k. 0 \<le> rnd k"
  shows "length (positions st) = PARTICLE_COUNT * 3 \<and>
         length (colors st) = PARTICLE_COUNT * 3 \<and>
         length (velocities st) = PARTICLE_COUNT * 3 \<and>
         (\<forall>i<PARTICLE_COUNT.
            (positions st ! (i * 3 + 1) + velocities st ! (i * 3 + 1) * min rawDelta (5 / 100)
               < BOTTOM_Y \<longrightarrow>
             TOP_Y \<le> positions st' ! (i * 3 + 1)) \<and>
            (\<not> positions st ! (i * 3 + 1) + velocities st ! (i * 3 + 1) * min rawDelta (5 / 100)
               < BOTTOM_Y \<longrightarrow>
             positions st' ! (i * 3 + 1) =
               positions st ! (i * 3 + 1) + velocities st ! (i * 3 + 1) * min rawDelta (5 / 100)) \<and>
            BOTTOM_Y \<le> positions st' ! (i * 3 + 1))"
proof -
  have len: "length (positions st) = PARTICLE_COUNT * 3" "length (colors st) = PARTICLE_COUNT * 3"
    "length (velocities st) = PARTICLE_COUNT * 3"
    by (simp_all add: st_def initSparkles_length)
  have pt: "(positions st ! (i * 3 + 1) + velocities st ! (i * 3 + 1) * min rawDelta (5 / 100)
               < BOTTOM_Y \<longrightarrow>
             TOP_Y \<le> positions st' ! (i * 3 + 1)) \<and>
            (\<not> positions st ! (i * 3 + 1) + velocities st ! (i * 3 + 1) * min rawDelta (5 / 100)
               < BOTTOM_Y \<longrightarrow>
             positions st' ! (i * 3 + 1) =
               positions st ! (i * 3 + 1) + velocities st ! (i * 3 + 1) * min rawDelta (5 / 100)) \<and>
            BOTTOM_Y \<le> positions st' ! (i * 3 + 1)"
    if "i < PARTICLE_COUNT" for i
  proof -
    let ?d = "min rawDelta (5 / 100)"
    let ?s = "st\<lparr>opacity := damp (opacity st) (6 / 10) 2 ?d\<rparr>"
    let ?y = "positions st ! (i * 3 + 1) + velocities st ! (i * 3 + 1) * ?d"
    have ps: "positions ?s = positions st" "velocities ?s = velocities st" by simp_all
    have "PARTICLE_COUNT * 3 \<le> length (positions ?s)" using len by simp
    from sparkleLoop_y[OF this that, of ?d now rnd, unfolded ps]
    obtain k where "positions (foldl (sparkleStep ?d now rnd) ?s [0..<PARTICLE_COUNT]) ! (i * 3 + 1) =
       (if ?y < BOTTOM_Y then TOP_Y + rnd k * 2 else ?y)" by blast
    moreover have "st' = foldl (sparkleStep ?d now rnd) ?s [0..<PARTICLE_COUNT]"
      by (simp add: st'_def st_def sparklesFrame_def Let_def)
    ultimately have y': "positions st' ! (i * 3 + 1) =
       (if ?y < BOTTOM_Y then TOP_Y + rnd k * 2 else ?y)" by simp
    have "0 \<le> rnd k" using rnd by simp
    then show ?thesis unfolding y' by (simp add: TOP_Y_def BOTTOM_Y_def)
  qed
  show ?thesis using len pt by blast
qed

theorem sparkle_pool_invariant_witness:
  "(\<forall>k::nat. (0::real) \<le> (\<lambda>k. 1 / 2) k) \<and> (0::nat) < PARTICLE_COUNT \<and>
   length (positions (runSparkles (\<lambda>k. 1 / 2) (initSparkles (\<lambda>k. 1 / 2) 0)
      [(True, True, 1 / 60, \<lambda>i. 0)])) = PARTICLE_COUNT * 3 \<and>
   BOTTOM_Y \<le> positions (sparklesFrame True True (1 / 60) (\<lambda>i. 0) (\<lambda>k. 1 / 2)
      (runSparkles (\<lambda>k. 1 / 2) (initSparkles (\<lambda>k. 1 / 2) 0)
         [(True, True, 1 / 60, \<lambda>i. 0)])) ! (0 * 3 + 1)"
proof -
  have h: "\<forall>k::nat. (0::real) \<le> (\<lambda>k. 1 / 2) k" by simp
  have i: "(0::nat) < PARTICLE_COUNT" by (simp add: PARTICLE_COUNT_def)
  note t = sparkle_pool_invariant[OF h, of 0 "[(True, True, 1 / 60, \<lambda>i. 0)]" "1 / 60" "\<lambda>i. 0"]
  note len = t[THEN conjunct1]
  note pt = t[THEN conjunct2, THEN conjunct2, THEN conjunct2, rule_format, OF i,
      THEN conjunct2, THEN conjunct2]
  show ?thesis using h i len pt by - (intro conjI, assumption+)
qed

section \<open>Firework simulation (src/unnamed/part_000, Fireworks)\<close>

subsection \<open>Tuning knobs and palettes (lines 18-57)\<close>

definition MAX_SHELLS :: nat where "MAX_SHELLS = 12"
definition PARTICLES_PER_SHELL :: nat where "PARTICLES_PER_SHELL = 80"
definition TRAIL_PARTICLES_PER_SHELL :: nat where "TRAIL_PARTICLES_PER_SHELL = 12"
definition TOTAL_BURST :: nat where "TOTAL_BURST = MAX_SHELLS * PARTICLES_PER_SHELL"
definition TOTAL_TRAIL :: nat where "TOTAL_TRAIL = MAX_SHELLS * TRAIL_PARTICLES_PER_SHELL"
definition TOTAL_PARTICLES :: nat where "TOTAL_PARTICLES = TOTAL_BURST + TOTAL_TRAIL"
definition GRAVITY :: real where "GRAVITY = - (38 / 10)"
definition DRAG :: real where "DRAG = 97 / 100"
definition LAUNCH_INTERVAL :: real where "LAUNCH_INTERVAL = 35 / 100"
definition SHELL_RISE_SPEED_MIN :: real where "SHELL_RISE_SPEED_MIN = 6"
definition SHELL_RISE_SPEED_MAX :: real where "SHELL_RISE_SPEED_MAX = 10"
definition BURST_SPEED_MIN :: real where "BURST_SPEED_MIN = 2"
definition BURST_SPEED_MAX :: real where "BURST_SPEED_MAX = 5"
definition BURST_LIFETIME_MIN :: real where "BURST_LIFETIME_MIN = 1"
definition BURST_LIFETIME_MAX :: real where "BURST_LIFETIME_MAX = 22 / 10"
definition SPARKLE_SIZE :: real where "SPARKLE_SIZE = 6 / 100"
definition TRAIL_SIZE :: real where "TRAIL_SIZE = 3 / 100"
definition SPREAD_X :: real where "SPREAD_X = 4"
definition SPREAD_Z :: real where "SPREAD_Z = 16"

lemmas firework_counts =
  MAX_SHELLS_def PARTICLES_PER_SHELL_def TRAIL_PARTICLES_PER_SHELL_def TOTAL_BURST_def
  TOTAL_TRAIL_def TOTAL_PARTICLES_def

type_synonym rgb = "real \<times> real \<times> real"

definition PALETTES :: "rgb list list" where
  "PALETTES =
     [[(1, 85 / 100, 3 / 10), (1, 95 / 100, 7 / 10), (1, 1, 1)],
      [(1, 2 / 10, 6 / 10), (1, 5 / 10, 8 / 10), (1, 8 / 10, 1)],
      [(2 / 10, 8 / 10, 1), (4 / 10, 6 / 10, 1), (7 / 10, 9 / 10, 1)],
      [(3 / 10, 1, 4 / 10), (6 / 10, 1, 3 / 10), (8 / 10, 1, 7 / 10)],
      [(1, 25 / 100, 15 / 100), (1, 55 / 100, 1 / 10), (1, 8 / 10, 4 / 10)],
      [(6 / 10, 2 / 10, 1), (8 / 10, 4 / 10, 1), (9 / 10, 7 / 10, 1)],
      [(1, 1, 1), (9 / 10, 95 / 100, 1), (8 / 10, 85 / 100, 95 / 100)]]"

text \<open>
  \<open>Math.floor(Math.random() * n)\<close> as an index: for a draw in \<open>[0, 1)\<close> the floor is a
  natural number below \<open>n\<close>.
\<close>

definition randomIndex :: "real \<Rightarrow> nat \<Rightarrow> nat" where
  "randomIndex r n = nat \<lfloor>r * real n\<rfloor>"

definition pickPalette :: "random \<Rightarrow> nat \<Rightarrow> rgb list" where
  "pickPalette rnd k = PALETTES ! randomIndex (rnd k) (length PALETTES)"

subsection \<open>Per-shell state and particle buffers (lines 59-94, 145-180)\<close>

datatype phase = Rising | Burst

text \<open>
  \<open>ShellState\<close>, with the fields \<open>x\<close> and \<open>z\<close> written \<open>shellX\<close> and \<open>shellZ\<close>.
\<close>

record ShellState =
  active :: bool
  phase :: phase
  shellX :: real
  shellZ :: real
  riseY :: real
  riseVelocity :: real
  targetY :: real
  burstAge :: real
  palette :: "rgb list"

definition initShell :: ShellState where
  "initShell =
     \<lparr>active = False, phase = Rising, shellX = 0, shellZ = 0, riseY = 0, riseVelocity = 0,
      targetY = 0, burstAge = 0, palette = PALETTES ! 0\<rparr>"

text \<open>
  The state of the component: the buffers and shells of \<open>FireworkData\<close> (the array fields
  carry the prefix \<open>fw\<close>), the two refs, the opacities of the burst and trail materials,
  and the number of \<open>Math.random()\<close> draws made.  The copies handed to the GPU at the end
  of a frame (lines 343-359) are outputs only and are left out.
\<close>

record fireworks =
  fwPositions :: "real list"
  fwVelocities :: "real list"
  fwColors :: "real list"
  fwSizes :: "real list"
  fwAges :: "real list"
  fwLifetimes :: "real list"
  shells :: "ShellState list"
  launchTimerRef :: real
  hasExplodedOnceRef :: bool
  materialOpacity :: real
  trailMatOpacity :: real
  fwDraws :: nat

text \<open>Lines 156-180: every particle starts off screen, dead, with size 0.\<close>

definition initialFireworks :: fireworks where
  "initialFireworks =
     \<lparr>fwPositions = concat (replicate TOTAL_PARTICLES [0, - 100, 0]),
      fwVelocities = replicate (TOTAL_PARTICLES * 3) 0,
      fwColors = replicate (TOTAL_PARTICLES * 3) 0,
      fwSizes = replicate TOTAL_PARTICLES 0,
      fwAges = replicate TOTAL_PARTICLES 999,
      fwLifetimes = replicate TOTAL_PARTICLES 1,
      shells = replicate MAX_SHELLS initShell,
      launchTimerRef = 0, hasExplodedOnceRef = False,
      materialOpacity = 0, trailMatOpacity = 0, fwDraws = 0\<rparr>"

subsection \<open>Launching (lines 96-107, 183-199, 230-240)\<close>

definition launchShell :: "random \<Rightarrow> nat \<Rightarrow> vec3 \<Rightarrow> ShellState \<Rightarrow> ShellState" where
  "launchShell rnd k baseOrigin shell =
     shell\<lparr>active := True, phase := Rising,
           shellX := vx baseOrigin - rnd k * SPREAD_X,
           shellZ := vz baseOrigin + (rnd (k + 1) - 1 / 2) * SPREAD_Z,
           riseY := vy baseOrigin - 4,
           riseVelocity :=
             SHELL_RISE_SPEED_MIN + rnd (k + 2) * (SHELL_RISE_SPEED_MAX - SHELL_RISE_SPEED_MIN),
           targetY := vy baseOrigin + rnd (k + 3) * 4,
           burstAge := 0,
           palette := pickPalette rnd (k + 4)\<rparr>"

text \<open>\<open>launchShell(data.shells[s], baseOrigin)\<close>, with its five draws.\<close>

definition launchAt :: "random \<Rightarrow> vec3 \<Rightarrow> nat \<Rightarrow> fireworks \<Rightarrow> fireworks" where
  "launchAt rnd baseOrigin s st =
     st\<lparr>shells := (shells st)[s := launchShell rnd (fwDraws st) baseOrigin (shells st ! s)],
        fwDraws := fwDraws st + 5\<rparr>"

text \<open>Lines 188-194: the loop of the initial volley, from shell \<open>s\<close> with \<open>launched\<close> so far.\<close>

function volley :: "random \<Rightarrow> vec3 \<Rightarrow> nat \<Rightarrow> nat \<Rightarrow> fireworks \<Rightarrow> fireworks" where
  "volley rnd baseOrigin s launched st =
     (if s < MAX_SHELLS \<and> launched < 5
      then if \<not> active (shells st ! s)
           then volley rnd baseOrigin (Suc s) (Suc launched) (launchAt rnd baseOrigin s st)
           else volley rnd baseOrigin (Suc s) launched st
      else st)"
  by pat_completeness auto
termination
  by (relation "measure (\<lambda>(rnd, baseOrigin, s, launched, st). MAX_SHELLS - s)") auto

declare volley.simps [simp del]

text \<open>Lines 183-199: the effect that runs when \<open>isActive\<close> (or the origin) changes.\<close>

definition activationEffect :: "bool \<Rightarrow> random \<Rightarrow> vec3 \<Rightarrow> fireworks \<Rightarrow> fireworks" where
  "activationEffect isActive rnd baseOrigin st =
     (let st1 = (if isActive \<and> \<not> hasExplodedOnceRef st
                 then volley rnd baseOrigin 0 0 (st\<lparr>hasExplodedOnceRef := True\<rparr>)
                 else st)
      in if \<not> isActive then st1\<lparr>hasExplodedOnceRef := False\<rparr> else st1)"

text \<open>Lines 234-239: launch the first inactive shell at or after \<open>s\<close>, then \<open>break\<close>.\<close>

function launchFirstInactive :: "random \<Rightarrow> vec3 \<Rightarrow> nat \<Rightarrow> fireworks \<Rightarrow> fireworks" where
  "launchFirstInactive rnd baseOrigin s st =
     (if s < MAX_SHELLS
      then if \<not> active (shells st ! s) then launchAt rnd baseOrigin s st
           else launchFirstInactive rnd baseOrigin (Suc s) st
      else st)"
  by pat_completeness auto
termination
  by (relation "measure (\<lambda>(rnd, baseOrigin, s, st). MAX_SHELLS - s)") auto

declare launchFirstInactive.simps [simp del]

text \<open>Lines 231-240: the launch timer.\<close>

definition launchOnTimer :: "real \<Rightarrow> random \<Rightarrow> vec3 \<Rightarrow> fireworks \<Rightarrow> fireworks" where
  "launchOnTimer delta rnd baseOrigin st =
     (let st1 = st\<lparr>launchTimerRef := launchTimerRef st + delta\<rparr>
      in if launchTimerRef st1 \<ge> LAUNCH_INTERVAL
         then launchFirstInactive rnd baseOrigin 0 (st1\<lparr>launchTimerRef := 0\<rparr>)
         else st1)"

subsection \<open>Bursting a shell (lines 109-142)\<close>

text \<open>
  One round of the loop of \<open>burstShell\<close>, for particle \<open>p\<close> of the slice of shell
  \<open>shellIndex\<close>.  The six draws are, in order: \<open>theta\<close>, \<open>phi\<close>, \<open>speed\<close>, the palette
  index, the size and the lifetime.
\<close>

definition burstParticle ::
    "nat \<Rightarrow> ShellState \<Rightarrow> random \<Rightarrow> fireworks \<Rightarrow> nat \<Rightarrow> fireworks" where
  "burstParticle shellIndex shell rnd st p =
     (let burstStart = shellIndex * PARTICLES_PER_SHELL;
          i = burstStart + p;
          idx3 = i * 3;
          k = fwDraws st;
          theta = rnd k * pi * 2;
          phi = arccos (rnd (k + 1) * 2 - 1);
          speed = BURST_SPEED_MIN + rnd (k + 2) * (BURST_SPEED_MAX - BURST_SPEED_MIN);
          c = palette shell ! randomIndex (rnd (k + 3)) (length (palette shell))
      in st\<lparr>fwPositions :=
               (fwPositions st)
                 [idx3 := shellX shell, idx3 + 1 := riseY shell, idx3 + 2 := shellZ shell],
             fwVelocities :=
               (fwVelocities st)
                 [idx3 := sin phi * cos theta * speed,
                  idx3 + 1 := sin phi * sin theta * speed * (6 / 10) + cos phi * speed * (5 / 10),
                  idx3 + 2 := sin phi * sin (theta + pi / 2) * speed],
             fwColors :=
               (fwColors st)
                 [idx3 := fst c, idx3 + 1 := fst (snd c), idx3 + 2 := snd (snd c)],
             fwSizes := (fwSizes st)[i := SPARKLE_SIZE * (6 / 10 + rnd (k + 4) * (8 / 10))],
             fwLifetimes :=
               (fwLifetimes st)
                 [i := BURST_LIFETIME_MIN + rnd (k + 5) * (BURST_LIFETIME_MAX - BURST_LIFETIME_MIN)],
             fwAges := (fwAges st)[i := 0],
             fwDraws := k + 6\<rparr>)"

definition burstShell :: "nat \<Rightarrow> ShellState \<Rightarrow> random \<Rightarrow> fireworks \<Rightarrow> fireworks" where
  "burstShell shellIndex shell rnd st =
     foldl (burstParticle shellIndex shell rnd) st [0..<PARTICLES_PER_SHELL]"

subsection \<open>The frame callback (lines 201-360)\<close>

text \<open>Lines 250-264: trail particle \<open>t\<close> of a rising shell \<open>s\<close>.\<close>

definition trailParticle :: "nat \<Rightarrow> ShellState \<Rightarrow> random \<Rightarrow> fireworks \<Rightarrow> nat \<Rightarrow> fireworks" where
  "trailParticle s shell rnd st t =
     (let trailBase = s * TRAIL_PARTICLES_PER_SHELL;
          ti = TOTAL_BURST + trailBase + t;
          ti3 = ti * 3;
          k = fwDraws st;
          trailOffset = (real t / real TRAIL_PARTICLES_PER_SHELL) * (15 / 10);
          brightness = 1 - (real t / real TRAIL_PARTICLES_PER_SHELL) * (7 / 10)
      in st\<lparr>fwPositions :=
               (fwPositions st)
                 [ti3 := shellX shell + (rnd k - 1 / 2) * (15 / 100),
                  ti3 + 1 := riseY shell - trailOffset + (rnd (k + 1) - 1 / 2) * (1 / 10),
                  ti3 + 2 := shellZ shell + (rnd (k + 2) - 1 / 2) * (15 / 100)],
             fwColors :=
               (fwColors st)
                 [ti3 := 1 * brightness, ti3 + 1 := (85 / 100) * brightness,
                  ti3 + 2 := (4 / 10) * brightness],
             fwSizes := (fwSizes st)[ti := TRAIL_SIZE * brightness],
             fwDraws := k + 3\<rparr>)"

text \<open>Lines 276-281: hiding trail particle \<open>t\<close> of shell \<open>s\<close>.\<close>

definition hideTrailParticle :: "nat \<Rightarrow> fireworks \<Rightarrow> nat \<Rightarrow> fireworks" where
  "hideTrailParticle s st t =
     (let trailBase2 = s * TRAIL_PARTICLES_PER_SHELL;
          ti = TOTAL_BURST + trailBase2 + t;
          ti3 = ti * 3
      in st\<lparr>fwPositions := (fwPositions st)[ti3 + 1 := - 100],
             fwSizes := (fwSizes st)[ti := 0]\<rparr>)"

text \<open>Lines 247-282: an active shell in the rising phase.\<close>

definition risingShell :: "real \<Rightarrow> random \<Rightarrow> fireworks \<Rightarrow> nat \<Rightarrow> fireworks" where
  "risingShell delta rnd st s =
     (let shell = shells st ! s;
          st1 = foldl (trailParticle s shell rnd) st [0..<TRAIL_PARTICLES_PER_SHELL];
          shell1 = shell\<lparr>riseY := riseY shell + riseVelocity shell * delta\<rparr>;
          st2 = st1\<lparr>shells := (shells st1)[s := shell1]\<rparr>
      in if riseY shell1 \<ge> targetY shell1
         then let shell2 = shell1\<lparr>phase := Burst, burstAge := 0\<rparr>;
                  st3 = st2\<lparr>shells := (shells st2)[s := shell2]\<rparr>;
                  st4 = burstShell s shell2 rnd st3
              in foldl (hideTrailParticle s) st4 [0..<TRAIL_PARTICLES_PER_SHELL]
         else st2)"

text \<open>
  Lines 289-335: burst particle \<open>p\<close> of a bursting shell \<open>s\<close>; the second component is the
  flag \<open>allDead\<close>.  The palette index \<open>Math.min(Math.floor(t * n), n - 1)\<close> is taken as a
  natural number (\<open>t\<close> is not negative when the deltas are not).
\<close>

definition burstingParticle ::
    "nat \<Rightarrow> ShellState \<Rightarrow> real \<Rightarrow> random \<Rightarrow> fireworks \<times> bool \<Rightarrow> nat \<Rightarrow> fireworks \<times> bool" where
  "burstingParticle s shell delta rnd acc p =
     (let st = fst acc; allDead = snd acc;
          burstStart = s * PARTICLES_PER_SHELL;
          i = burstStart + p;
          idx3 = i * 3;
          ages1 = (fwAges st)[i := fwAges st ! i + delta];
          age = ages1 ! i;
          life = fwLifetimes st ! i
      in if age > life
         then (st\<lparr>fwAges := ages1,
                  fwPositions := (fwPositions st)[idx3 + 1 := - 100],
                  fwColors := (fwColors st)[idx3 := 0, idx3 + 1 := 0, idx3 + 2 := 0],
                  fwSizes := (fwSizes st)[i := 0]\<rparr>, allDead)
         else
           let v0 = fwVelocities st;
               v1 = v0[idx3 := v0 ! idx3 * DRAG];
               v2 = v1[idx3 + 1 := v1 ! (idx3 + 1) * DRAG];
               v3 = v2[idx3 + 2 := v2 ! (idx3 + 2) * DRAG];
               v4 = v3[idx3 + 1 := v3 ! (idx3 + 1) + GRAVITY * delta];
               p0 = fwPositions st;
               p1 = p0[idx3 := p0 ! idx3 + v4 ! idx3 * delta];
               p2 = p1[idx3 + 1 := p1 ! (idx3 + 1) + v4 ! (idx3 + 1) * delta];
               p3 = p2[idx3 + 2 := p2 ! (idx3 + 2) + v4 ! (idx3 + 2) * delta];
               t = age / life;
               fade = max 0 (1 - t * t);
               k = fwDraws st;
               flicker = 85 / 100 + rnd k * (15 / 100);
               pal = palette shell;
               cIdx = nat (min \<lfloor>t * real (length pal)\<rfloor> (int (length pal) - 1));
               c = pal ! cIdx
           in (st\<lparr>fwAges := ages1, fwVelocities := v4, fwPositions := p3,
                   fwColors :=
                     (fwColors st)
                       [idx3 := fst c * fade * flicker,
                        idx3 + 1 := fst (snd c) * fade * flicker,
                        idx3 + 2 := snd (snd c) * fade * flicker],
                   fwSizes :=
                     (fwSizes st)[i := SPARKLE_SIZE * fade * (5 / 10 + rnd (k + 1) * (5 / 10))],
                   fwDraws := k + 2\<rparr>, False))"

text \<open>Lines 283-340: an active shell in the burst phase.\<close>

definition burstingShell :: "real \<Rightarrow> random \<Rightarrow> fireworks \<Rightarrow> nat \<Rightarrow> fireworks" where
  "burstingShell delta rnd st s =
     (let shell = shells st ! s;
          shell1 = shell\<lparr>burstAge := burstAge shell + delta\<rparr>;
          st1 = st\<lparr>shells := (shells st)[s := shell1]\<rparr>;
          acc = foldl (burstingParticle s shell1 delta rnd) (st1, True) [0..<PARTICLES_PER_SHELL];
          st2 = fst acc; allDead = snd acc
      in if allDead
         then st2\<lparr>shells := (shells st2)[s := (shells st2 ! s)\<lparr>active := False\<rparr>]\<rparr>
         else st2)"

text \<open>Lines 243-341: one round of the loop over the shells.\<close>

definition updateShell :: "real \<Rightarrow> random \<Rightarrow> fireworks \<Rightarrow> nat \<Rightarrow> fireworks" where
  "updateShell delta rnd st s =
     (let shell = shells st ! s
      in if \<not> active shell then st
         else if phase shell = Rising then risingShell delta rnd st s
         else burstingShell delta rnd st s)"

text \<open>
  The callback.  \<open>mounted\<close> says that the geometry and material refs and the data are
  there (line 207).
\<close>

definition fireworksFrame ::
    "bool \<Rightarrow> bool \<Rightarrow> real \<Rightarrow> random \<Rightarrow> vec3 \<Rightarrow> fireworks \<Rightarrow> fireworks" where
  "fireworksFrame mounted isActive rawDelta rnd baseOrigin st =
     (if \<not> mounted then st
      else let delta = min rawDelta (5 / 100) in
        if \<not> isActive
        then let st1 = st\<lparr>materialOpacity := damp (materialOpacity st) 0 4 delta,
                          trailMatOpacity := damp (trailMatOpacity st) 0 4 delta\<rparr>
             in if materialOpacity st1 < 1 / 100
                then st1\<lparr>shells := map (\<lambda>shell. shell\<lparr>active := False\<rparr>) (shells st1)\<rparr>
                else st1
        else let st1 = st\<lparr>materialOpacity := damp (materialOpacity st) 1 3 delta,
                          trailMatOpacity := damp (trailMatOpacity st) (7 / 10) 3 delta\<rparr>;
                 st2 = launchOnTimer delta rnd baseOrigin st1
             in foldl (updateShell delta rnd) st2 [0..<MAX_SHELLS])"

subsection \<open>The launch schedule\<close>

lemma launchShell_rising [simp]:
  "active (launchShell rnd k origin shell)" "phase (launchShell rnd k origin shell) = Rising"
  by (simp_all add: launchShell_def)

lemma launchAt_proj [simp]:
  "shells (launchAt rnd origin s st) =
     (shells st)[s := launchShell rnd (fwDraws st) origin (shells st ! s)]"
  "fwDraws (launchAt rnd origin s st) = fwDraws st + 5"
  "launchTimerRef (launchAt rnd origin s st) = launchTimerRef st"
  "hasExplodedOnceRef (launchAt rnd origin s st) = hasExplodedOnceRef st"
  "fwAges (launchAt rnd origin s st) = fwAges st"
  "fwLifetimes (launchAt rnd origin s st) = fwLifetimes st"
  by (simp_all add: launchAt_def)

lemma filter_active_update:
  "s < length xs \<Longrightarrow> \<not> active (xs ! s) \<Longrightarrow> active y \<Longrightarrow>
     length (filter active (xs[s := y])) = Suc (length (filter active xs))"
proof (induction xs arbitrary: s)
  case Nil
  then show ?case by simp
next
  case (Cons x xs)
  then show ?case by (cases s) auto
qed

lemma volley_shells:
  assumes "length (shells st) = MAX_SHELLS"
    "\<forall>j. s \<le> j \<and> j < MAX_SHELLS \<longrightarrow> \<not> active (shells st ! j)"
    "launched \<le> 5" "s + (5 - launched) \<le> MAX_SHELLS"
  shows "length (shells (volley rnd origin s launched st)) = MAX_SHELLS \<and>
    (\<forall>j < MAX_SHELLS. shells (volley rnd origin s launched st) ! j =
       (if s \<le> j \<and> j < s + (5 - launched)
        then launchShell rnd (fwDraws st + 5 * (j - s)) origin (shells st ! j)
        else shells st ! j)) \<and>
    hasExplodedOnceRef (volley rnd origin s launched st) = hasExplodedOnceRef st"
  using assms
proof (induction rnd origin s launched st rule: volley.induct)
  case (1 rnd origin s launched st)
  show ?case
  proof (cases "s < MAX_SHELLS \<and> launched < 5")
    case False
    then have "5 - launched = 0" using "1.prems" by auto
    then show ?thesis using False "1.prems" by (subst volley.simps, subst volley.simps, subst volley.simps) auto
  next
    case True
    then have inactive: "\<not> active (shells st ! s)" using "1.prems" by simp
    let ?st' = "launchAt rnd origin s st"
    have a: "length (shells ?st') = MAX_SHELLS" using "1.prems" by simp
    have b: "\<forall>j. Suc s \<le> j \<and> j < MAX_SHELLS \<longrightarrow> \<not> active (shells ?st' ! j)"
      using "1.prems" by simp
    have c: "Suc launched \<le> 5" "Suc s + (5 - Suc launched) \<le> MAX_SHELLS"
      using True "1.prems"(3,4) by linarith+
    note ih = "1.IH"(1)[OF True inactive a b c]
    have v: "volley rnd origin s launched st = volley rnd origin (Suc s) (Suc launched) ?st'"
      using True inactive by (subst volley.simps) simp
    have len: "s < length (shells st)" using True "1.prems"(1) by simp
    have pt: "shells (volley rnd origin (Suc s) (Suc launched) ?st') ! j =
       (if s \<le> j \<and> j < s + (5 - launched)
        then launchShell rnd (fwDraws st + 5 * (j - s)) origin (shells st ! j)
        else shells st ! j)" if j: "j < MAX_SHELLS" for j
    proof -
      note ihj = ih[THEN conjunct2, THEN conjunct1, rule_format, OF j]
      consider "j < s" | "j = s" | "s < j" by linarith
      then show ?thesis
      proof cases
        case 1
        then show ?thesis unfolding ihj using len by simp
      next
        case 2
        then show ?thesis unfolding ihj using len True by auto
      next
        case 3
        then have e: "fwDraws ?st' + 5 * (j - Suc s) = fwDraws st + 5 * (j - s)" by simp
        have w: "(Suc s \<le> j \<and> j < Suc s + (5 - Suc launched)) = (s \<le> j \<and> j < s + (5 - launched))"
          using 3 True by auto
        have n: "shells ?st' ! j = shells st ! j" using 3 by simp
        show ?thesis unfolding ihj e w n ..
      qed
    qed
    show ?thesis unfolding v using ih pt by simp
  qed
qed


lemma launchFirstInactive_none:
  "\<forall>j. s \<le> j \<and> j < MAX_SHELLS \<longrightarrow> active (shells st ! j) \<Longrightarrow>
     launchFirstInactive rnd origin s st = st"
proof (induction rnd origin s st rule: launchFirstInactive.induct)
  case (1 rnd origin s st)
  show ?case
  proof (cases "s < MAX_SHELLS")
    case False
    then show ?thesis by (subst launchFirstInactive.simps) simp
  next
    case True
    then have a: "active (shells st ! s)" using "1.prems" by simp
    have b: "\<forall>j. Suc s \<le> j \<and> j < MAX_SHELLS \<longrightarrow> active (shells st ! j)"
      using "1.prems" by simp
    have n: "\<not> \<not> active (shells st ! s)" using a by simp
    have "launchFirstInactive rnd origin (Suc s) st = st"
      by (rule "1.IH"[OF True n b])
    then show ?thesis using True a by (subst launchFirstInactive.simps) simp
  qed
qed


lemma launchFirstInactive_some:
  "s \<le> j0 \<Longrightarrow> j0 < MAX_SHELLS \<Longrightarrow> \<not> active (shells st ! j0) \<Longrightarrow>
   \<forall>j. s \<le> j \<and> j < j0 \<longrightarrow> active (shells st ! j) \<Longrightarrow>
     launchFirstInactive rnd origin s st = launchAt rnd origin j0 st"
proof (induction rnd origin s st rule: launchFirstInactive.induct)
  case (1 rnd origin s st)
  have lt: "s < MAX_SHELLS" using "1.prems"(1,2) by linarith
  show ?case
  proof (cases "s = j0")
    case True
    have "\<not> active (shells st ! s)" using "1.prems"(3) True by simp
    then show ?thesis using lt True by (subst launchFirstInactive.simps) simp
  next
    case False
    then have le: "Suc s \<le> j0" using "1.prems"(1) by linarith
    have "s \<le> s \<and> s < j0" using False "1.prems"(1) by linarith
    then have a: "active (shells st ! s)" using "1.prems"(4) by blast
    have n: "\<not> \<not> active (shells st ! s)" using a by simp
    have b: "\<forall>j. Suc s \<le> j \<and> j < j0 \<longrightarrow> active (shells st ! j)"
      using "1.prems"(4) by auto
    have "launchFirstInactive rnd origin (Suc s) st = launchAt rnd origin j0 st"
      by (rule "1.IH"[OF lt n le "1.prems"(2,3) b])
    then show ?thesis using lt a by (subst launchFirstInactive.simps) simp
  qed
qed

lemma first_inactive:
  assumes "\<exists>s<n. \<not> active (xs ! s)"
  shows "\<exists>j0<n. \<not> active (xs ! j0) \<and> (\<forall>j<j0. active (xs ! j))"
proof -
  let ?P = "\<lambda>s. s < n \<and> \<not> active (xs ! s)"
  have "\<exists>s. ?P s" using assms by blast
  then have "\<exists>j0. ?P j0 \<and> (\<forall>m<j0. \<not> ?P m)" by (subst (asm) exists_least_iff)
  then obtain j0 where j0: "?P j0" "\<forall>m<j0. \<not> ?P m" by blast
  have "active (xs ! j)" if "j < j0" for j
  proof -
    have "\<not> ?P j" using j0(2) that by blast
    moreover have "j < n" using that j0(1) by simp
    ultimately show ?thesis by blast
  qed
  then show ?thesis using j0(1) by blast
qed


lemma launchOnTimer_proj:
  "launchTimerRef st + d < LAUNCH_INTERVAL \<Longrightarrow>
     launchOnTimer d rnd origin st = st\<lparr>launchTimerRef := launchTimerRef st + d\<rparr>"
  "LAUNCH_INTERVAL \<le> launchTimerRef st + d \<Longrightarrow>
     launchOnTimer d rnd origin st =
       launchFirstInactive rnd origin 0 (st\<lparr>launchTimerRef := 0\<rparr>)"
  by (simp_all add: launchOnTimer_def)

lemma launchOnTimer_cases:
  assumes len: "length (shells st) = MAX_SHELLS"
  shows "(launchTimerRef st + d < LAUNCH_INTERVAL \<and>
          launchOnTimer d rnd origin st = st\<lparr>launchTimerRef := launchTimerRef st + d\<rparr>) \<or>
         (LAUNCH_INTERVAL \<le> launchTimerRef st + d \<and> (\<forall>s<MAX_SHELLS. active (shells st ! s)) \<and>
          launchOnTimer d rnd origin st = st\<lparr>launchTimerRef := 0\<rparr>) \<or>
         (LAUNCH_INTERVAL \<le> launchTimerRef st + d \<and>
          (\<exists>j0<MAX_SHELLS. \<not> active (shells st ! j0) \<and> (\<forall>j<j0. active (shells st ! j)) \<and>
             launchOnTimer d rnd origin st = launchAt rnd origin j0 (st\<lparr>launchTimerRef := 0\<rparr>)))"
proof (cases "launchTimerRef st + d < LAUNCH_INTERVAL")
  case True
  then show ?thesis by (simp add: launchOnTimer_proj)
next
  case False
  then have due: "LAUNCH_INTERVAL \<le> launchTimerRef st + d" by simp
  let ?st0 = "st\<lparr>launchTimerRef := 0\<rparr>"
  show ?thesis
  proof (cases "\<forall>s<MAX_SHELLS. active (shells st ! s)")
    case True
    then have "launchFirstInactive rnd origin 0 ?st0 = ?st0"
      by (intro launchFirstInactive_none) simp
    then show ?thesis using due True by (simp add: launchOnTimer_proj)
  next
    case False
    then obtain j0 where j0: "j0 < MAX_SHELLS" "\<not> active (shells st ! j0)"
      "\<forall>j<j0. active (shells st ! j)"
      using first_inactive[of MAX_SHELLS "shells st"] by auto
    then have "launchFirstInactive rnd origin 0 ?st0 = launchAt rnd origin j0 ?st0"
      by (intro launchFirstInactive_some) simp_all
    then show ?thesis using due j0 by (auto simp add: launchOnTimer_proj)
  qed
qed


lemma filter_active_all:
  "\<forall>j<length xs. active (xs ! j) \<Longrightarrow> length (filter active xs) = length xs"
  by (simp add: all_set_conv_all_nth)

lemma filter_active_none:
  "\<forall>j<length xs. \<not> active (xs ! j) \<Longrightarrow> length (filter active xs) = 0"
  by (simp add: all_set_conv_all_nth filter_empty_conv)

lemma first_activation:
  assumes len: "length (shells st) = MAX_SHELLS"
    and once: "\<not> hasExplodedOnceRef st"
    and idle: "\<forall>s<MAX_SHELLS. \<not> active (shells st ! s)"
  shows "length (shells (activationEffect True rnd origin st)) = MAX_SHELLS"
    "\<forall>s<MAX_SHELLS. shells (activationEffect True rnd origin st) ! s =
       (if s < 5 then launchShell rnd (fwDraws st + 5 * s) origin (shells st ! s)
        else shells st ! s)"
    "hasExplodedOnceRef (activationEffect True rnd origin st)"
    "length (filter active (shells (activationEffect True rnd origin st))) = 5"
proof -
  let ?st0 = "st\<lparr>hasExplodedOnceRef := True\<rparr>"
  let ?st' = "activationEffect True rnd origin st"
  have eq: "?st' = volley rnd origin 0 0 ?st0"
    using once by (simp add: activationEffect_def)
  have v: "length (shells (volley rnd origin 0 0 ?st0)) = MAX_SHELLS \<and>
    (\<forall>j < MAX_SHELLS. shells (volley rnd origin 0 0 ?st0) ! j =
       (if 0 \<le> j \<and> j < 0 + (5 - 0)
        then launchShell rnd (fwDraws ?st0 + 5 * (j - 0)) origin (shells ?st0 ! j)
        else shells ?st0 ! j)) \<and>
    hasExplodedOnceRef (volley rnd origin 0 0 ?st0) = hasExplodedOnceRef ?st0"
    using len idle by (intro volley_shells) (simp_all add: MAX_SHELLS_def)
  show l: "length (shells ?st') = MAX_SHELLS" using v eq by simp
  show pt: "\<forall>s<MAX_SHELLS. shells ?st' ! s =
       (if s < 5 then launchShell rnd (fwDraws st + 5 * s) origin (shells st ! s)
        else shells st ! s)"
    using v eq by simp
  show "hasExplodedOnceRef ?st'" using v eq by simp
  have split: "shells ?st' = take 5 (shells ?st') @ drop 5 (shells ?st')" by simp
  have a: "length (filter active (take 5 (shells ?st'))) = length (take 5 (shells ?st'))"
    using pt l by (intro filter_active_all) (simp add: MAX_SHELLS_def)
  have b: "length (filter active (drop 5 (shells ?st'))) = 0"
    using pt l idle by (intro filter_active_none) (simp add: MAX_SHELLS_def)
  have "length (filter active (shells ?st')) =
      length (filter active (take 5 (shells ?st'))) + length (filter active (drop 5 (shells ?st')))"
    by (subst split) (simp only: filter_append length_append)
  then show "length (filter active (shells ?st')) = 5"
    unfolding a b using l by (simp add: MAX_SHELLS_def)
qed

text \<open>
  Claim C5.  Let the pool hold its \<open>MAX_SHELLS = 12\<close> shells.  When the activation effect
  runs with \<open>isActive = true\<close> for the first time (the latch \<open>hasExplodedOnceRef\<close> is clear
  and no shell is active), exactly 5 shells are active afterwards, shells 0 to 4, each in
  the rising phase, the other shells are untouched, and running the effect again changes
  nothing.  The launch timer of an active frame leaves the shells alone while the
  accumulated time is below \<open>LAUNCH_INTERVAL\<close>; when it reaches the interval the timer
  restarts at 0 and one inactive shell is launched if there is one (one more active shell,
  no active shell touched); when all 12 shells are active, nothing but the timer changes.
\<close>

theorem shell_launch_schedule:
  fixes st :: fireworks and rnd :: random and origin :: vec3 and delta :: real
  defines "volleyed \<equiv> activationEffect True rnd origin st"
  defines "ticked \<equiv> launchOnTimer delta rnd origin st"
  assumes len: "length (shells st) = MAX_SHELLS"
  shows "(\<not> hasExplodedOnceRef st \<and> (\<forall>s<MAX_SHELLS. \<not> active (shells st ! s)) \<longrightarrow>
            length (filter active (shells volleyed)) = 5 \<and>
            (\<forall>s<MAX_SHELLS.
               if s < 5 then active (shells volleyed ! s) \<and> phase (shells volleyed ! s) = Rising
               else shells volleyed ! s = shells st ! s) \<and>
            activationEffect True rnd origin volleyed = volleyed) \<and>
         length (shells ticked) = MAX_SHELLS \<and>
         length (filter active (shells ticked)) \<le> Suc (length (filter active (shells st))) \<and>
         (\<forall>s<MAX_SHELLS. active (shells st ! s) \<longrightarrow> shells ticked ! s = shells st ! s) \<and>
         (launchTimerRef st + delta < LAUNCH_INTERVAL \<longrightarrow>
            shells ticked = shells st \<and> launchTimerRef ticked = launchTimerRef st + delta) \<and>
         (LAUNCH_INTERVAL \<le> launchTimerRef st + delta \<longrightarrow>
            launchTimerRef ticked = 0 \<and>
            ((\<exists>s<MAX_SHELLS. \<not> active (shells st ! s)) \<longrightarrow>
               length (filter active (shells ticked)) = Suc (length (filter active (shells st)))) \<and>
            ((\<forall>s<MAX_SHELLS. active (shells st ! s)) \<longrightarrow>
               ticked = st\<lparr>launchTimerRef := 0\<rparr>))"
proof -
  have first: "length (filter active (shells volleyed)) = 5 \<and>
            (\<forall>s<MAX_SHELLS.
               if s < 5 then active (shells volleyed ! s) \<and> phase (shells volleyed ! s) = Rising
               else shells volleyed ! s = shells st ! s) \<and>
            activationEffect True rnd origin volleyed = volleyed"
    if h: "\<not> hasExplodedOnceRef st" "\<forall>s<MAX_SHELLS. \<not> active (shells st ! s)"
  proof -
    note f = first_activation[OF len h, of rnd origin, folded volleyed_def]
    have "activationEffect True rnd origin volleyed = volleyed"
      using f(3) by (simp add: activationEffect_def)
    then show ?thesis using f(2,4) by simp
  qed
  from launchOnTimer_cases[OF len, of delta rnd origin, folded ticked_def]
  consider (wait) "launchTimerRef st + delta < LAUNCH_INTERVAL"
      "ticked = st\<lparr>launchTimerRef := launchTimerRef st + delta\<rparr>"
    | (full) "LAUNCH_INTERVAL \<le> launchTimerRef st + delta"
      "\<forall>s<MAX_SHELLS. active (shells st ! s)" "ticked = st\<lparr>launchTimerRef := 0\<rparr>"
    | (launch) j0 where "LAUNCH_INTERVAL \<le> launchTimerRef st + delta" "j0 < MAX_SHELLS"
      "\<not> active (shells st ! j0)"
      "ticked = launchAt rnd origin j0 (st\<lparr>launchTimerRef := 0\<rparr>)"
    by blast
  then have timer: "length (shells ticked) = MAX_SHELLS \<and>
         length (filter active (shells ticked)) \<le> Suc (length (filter active (shells st))) \<and>
         (\<forall>s<MAX_SHELLS. active (shells st ! s) \<longrightarrow> shells ticked ! s = shells st ! s) \<and>
         (launchTimerRef st + delta < LAUNCH_INTERVAL \<longrightarrow>
            shells ticked = shells st \<and> launchTimerRef ticked = launchTimerRef st + delta) \<and>
         (LAUNCH_INTERVAL \<le> launchTimerRef st + delta \<longrightarrow>
            launchTimerRef ticked = 0 \<and>
            ((\<exists>s<MAX_SHELLS. \<not> active (shells st ! s)) \<longrightarrow>
               length (filter active (shells ticked)) = Suc (length (filter active (shells st)))) \<and>
            ((\<forall>s<MAX_SHELLS. active (shells st ! s)) \<longrightarrow>
               ticked = st\<lparr>launchTimerRef := 0\<rparr>))"
  proof cases
    case wait
    then show ?thesis using len by simp
  next
    case full
    then show ?thesis using len by auto
  next
    case launch
    have c: "length (filter active (shells ticked)) = Suc (length (filter active (shells st)))"
      unfolding launch(4) using launch(2,3) len by (simp add: filter_active_update)
    have k: "\<forall>s<MAX_SHELLS. active (shells st ! s) \<longrightarrow> shells ticked ! s = shells st ! s"
    proof (intro allI impI)
      fix s assume "s < MAX_SHELLS" "active (shells st ! s)"
      then have "s \<noteq> j0" using launch(3) by auto
      then show "shells ticked ! s = shells st ! s" unfolding launch(4) by simp
    qed
    have t: "launchTimerRef ticked = 0" "length (shells ticked) = MAX_SHELLS"
      unfolding launch(4) using len by simp_all
    show ?thesis using c k t launch(1,2,3) by auto
  qed
  show ?thesis using first timer by blast
qed

theorem shell_launch_schedule_witness:
  "length (shells initialFireworks) = MAX_SHELLS \<and>
   \<not> hasExplodedOnceRef initialFireworks \<and>
   filter active (shells initialFireworks) = [] \<and>
   length (filter active
      (shells (activationEffect True (\<lambda>k. 1 / 2) (vec (- 10) 6 0) initialFireworks))) = 5 \<and>
   launchTimerRef initialFireworks + 1 / 60 < LAUNCH_INTERVAL \<and>
   shells (launchOnTimer (1 / 60) (\<lambda>k. 1 / 2) (vec (- 10) 6 0) initialFireworks) =
     shells initialFireworks \<and>
   LAUNCH_INTERVAL \<le> launchTimerRef initialFireworks + 7 / 20 \<and>
   length (filter active
      (shells (launchOnTimer (7 / 20) (\<lambda>k. 1 / 2) (vec (- 10) 6 0) initialFireworks))) =
     Suc (length (filter active (shells initialFireworks))) \<and>
   launchOnTimer (7 / 20) (\<lambda>k. 1 / 2) (vec (- 10) 6 0)
      (initialFireworks\<lparr>shells := replicate MAX_SHELLS (initShell\<lparr>active := True\<rparr>)\<rparr>) =
     initialFireworks\<lparr>shells := replicate MAX_SHELLS (initShell\<lparr>active := True\<rparr>),
       launchTimerRef := 0\<rparr>"
proof -
  let ?rnd = "\<lambda>k::nat. 1 / 2 :: real"
  let ?o = "vec (- 10) 6 0"
  let ?full = "initialFireworks\<lparr>shells := replicate MAX_SHELLS (initShell\<lparr>active := True\<rparr>)\<rparr>"
  have len: "length (shells initialFireworks) = MAX_SHELLS"
    and once: "\<not> hasExplodedOnceRef initialFireworks"
    and none: "filter active (shells initialFireworks) = []"
    and idle: "\<forall>s<MAX_SHELLS. \<not> active (shells initialFireworks ! s)"
    and early: "launchTimerRef initialFireworks + 1 / 60 < LAUNCH_INTERVAL"
    and due: "LAUNCH_INTERVAL \<le> launchTimerRef initialFireworks + 7 / 20"
    by (auto simp add: initialFireworks_def initShell_def MAX_SHELLS_def LAUNCH_INTERVAL_def)
  have "(0::nat) < MAX_SHELLS \<and> \<not> active (shells initialFireworks ! 0)"
    by (simp add: initialFireworks_def initShell_def MAX_SHELLS_def)
  then have some: "\<exists>s<MAX_SHELLS. \<not> active (shells initialFireworks ! s)" by blast
  have len': "length (shells ?full) = MAX_SHELLS"
    and busy: "\<forall>s<MAX_SHELLS. active (shells ?full ! s)"
    and due': "LAUNCH_INTERVAL \<le> launchTimerRef ?full + 7 / 20"
    by (simp_all add: initialFireworks_def LAUNCH_INTERVAL_def)
  note a = shell_launch_schedule[OF len, of ?rnd ?o "1 / 60"]
  note b = shell_launch_schedule[OF len, of ?rnd ?o "7 / 20"]
  note c = shell_launch_schedule[OF len', of ?rnd ?o "7 / 20"]
  have 1: "length (filter active (shells (activationEffect True ?rnd ?o initialFireworks))) = 5"
    using a[THEN conjunct1, THEN mp, OF conjI[OF once idle], THEN conjunct1] .
  have 2: "shells (launchOnTimer (1 / 60) ?rnd ?o initialFireworks) = shells initialFireworks"
    using a[THEN conjunct2, THEN conjunct2, THEN conjunct2, THEN conjunct2, THEN conjunct1,
        THEN mp, OF early, THEN conjunct1] .
  have 3: "length (filter active (shells (launchOnTimer (7 / 20) ?rnd ?o initialFireworks))) =
     Suc (length (filter active (shells initialFireworks)))"
    using b[THEN conjunct2, THEN conjunct2, THEN conjunct2, THEN conjunct2, THEN conjunct2,
        THEN mp, OF due, THEN conjunct2, THEN conjunct1, THEN mp, OF some] .
  have 4: "launchOnTimer (7 / 20) ?rnd ?o ?full = ?full\<lparr>launchTimerRef := 0\<rparr>"
    using c[THEN conjunct2, THEN conjunct2, THEN conjunct2, THEN conjunct2, THEN conjunct2,
        THEN mp, OF due', THEN conjunct2, THEN conjunct2, THEN mp, OF busy] .
  show ?thesis using len once none 1 early 2 due 3 4 by - (intro conjI, assumption+)
qed

subsection \<open>What a burst writes\<close>

text \<open>
  \<open>burstVelocity rnd k\<close> and \<open>burstColor sh rnd k\<close> are the velocity and colour that one
  round of \<open>burstShell\<close> computes when its first draw is number \<open>k\<close>.
\<close>

lemma burstParticle_proj [simp]:
  "shells (burstParticle si sh rnd st p) = shells st"
  "fwDraws (burstParticle si sh rnd st p) = fwDraws st + 6"
  "launchTimerRef (burstParticle si sh rnd st p) = launchTimerRef st"
  "fwAges (burstParticle si sh rnd st p) = (fwAges st)[si * PARTICLES_PER_SHELL + p := 0]"
  "fwLifetimes (burstParticle si sh rnd st p) =
     (fwLifetimes st)[si * PARTICLES_PER_SHELL + p :=
        BURST_LIFETIME_MIN + rnd (fwDraws st + 5) * (BURST_LIFETIME_MAX - BURST_LIFETIME_MIN)]"
  "fwSizes (burstParticle si sh rnd st p) =
     (fwSizes st)[si * PARTICLES_PER_SHELL + p :=
        SPARKLE_SIZE * (6 / 10 + rnd (fwDraws st + 4) * (8 / 10))]"
  by (simp_all add: burstParticle_def Let_def)

lemma burstLoop_proj [simp]:
  "shells (foldl (burstParticle si sh rnd) st [0..<n]) = shells st"
  "fwDraws (foldl (burstParticle si sh rnd) st [0..<n]) = fwDraws st + 6 * n"
  "launchTimerRef (foldl (burstParticle si sh rnd) st [0..<n]) = launchTimerRef st"
  "length (fwAges (foldl (burstParticle si sh rnd) st [0..<n])) = length (fwAges st)"
  "length (fwLifetimes (foldl (burstParticle si sh rnd) st [0..<n])) = length (fwLifetimes st)"
  "length (fwSizes (foldl (burstParticle si sh rnd) st [0..<n])) = length (fwSizes st)"
  by (induction n) simp_all

lemma burstLoop_ages:
  "fwAges (foldl (burstParticle si sh rnd) st [0..<n]) ! i =
     (if si * PARTICLES_PER_SHELL \<le> i \<and> i < si * PARTICLES_PER_SHELL + n \<and> i < length (fwAges st)
      then 0 else fwAges st ! i)"
proof (induction n)
  case 0
  then show ?case by simp
next
  case (Suc n)
  show ?case
  proof (cases "si * PARTICLES_PER_SHELL + n = i")
    case True
    then show ?thesis using Suc by (cases "i < length (fwAges st)") (auto simp add: list_update_beyond)
  next
    case False
    then show ?thesis using Suc by auto
  qed
qed

lemma burstLoop_lifetimes:
  "fwLifetimes (foldl (burstParticle si sh rnd) st [0..<n]) ! i =
     (if si * PARTICLES_PER_SHELL \<le> i \<and> i < si * PARTICLES_PER_SHELL + n \<and>
         i < length (fwLifetimes st)
      then BURST_LIFETIME_MIN +
             rnd (fwDraws st + 6 * (i - si * PARTICLES_PER_SHELL) + 5) *
               (BURST_LIFETIME_MAX - BURST_LIFETIME_MIN)
      else fwLifetimes st ! i)"
proof (induction n)
  case 0
  then show ?case by simp
next
  case (Suc n)
  show ?case
  proof (cases "si * PARTICLES_PER_SHELL + n = i")
    case True
    then have "i - si * PARTICLES_PER_SHELL = n" by simp
    then show ?thesis using True Suc
      by (cases "i < length (fwLifetimes st)") (auto simp add: list_update_beyond)
  next
    case False
    then show ?thesis using Suc by auto
  qed
qed


definition burstVelocity :: "random \<Rightarrow> nat \<Rightarrow> real \<times> real \<times> real" where
  "burstVelocity rnd k =
     (let theta = rnd k * pi * 2;
          phi = arccos (rnd (k + 1) * 2 - 1);
          speed = BURST_SPEED_MIN + rnd (k + 2) * (BURST_SPEED_MAX - BURST_SPEED_MIN)
      in (sin phi * cos theta * speed,
          sin phi * sin theta * speed * (6 / 10) + cos phi * speed * (5 / 10),
          sin phi * sin (theta + pi / 2) * speed))"

definition burstColor :: "ShellState \<Rightarrow> random \<Rightarrow> nat \<Rightarrow> rgb" where
  "burstColor sh rnd k = palette sh ! randomIndex (rnd (k + 3)) (length (palette sh))"

lemma burstParticle_triples [simp]:
  "fwVelocities (burstParticle si sh rnd st p) =
     (fwVelocities st)
       [(si * PARTICLES_PER_SHELL + p) * 3 := fst (burstVelocity rnd (fwDraws st)),
        (si * PARTICLES_PER_SHELL + p) * 3 + 1 := fst (snd (burstVelocity rnd (fwDraws st))),
        (si * PARTICLES_PER_SHELL + p) * 3 + 2 := snd (snd (burstVelocity rnd (fwDraws st)))]"
  "fwColors (burstParticle si sh rnd st p) =
     (fwColors st)
       [(si * PARTICLES_PER_SHELL + p) * 3 := fst (burstColor sh rnd (fwDraws st)),
        (si * PARTICLES_PER_SHELL + p) * 3 + 1 := fst (snd (burstColor sh rnd (fwDraws st))),
        (si * PARTICLES_PER_SHELL + p) * 3 + 2 := snd (snd (burstColor sh rnd (fwDraws st)))]"
  "fwPositions (burstParticle si sh rnd st p) =
     (fwPositions st)
       [(si * PARTICLES_PER_SHELL + p) * 3 := shellX sh,
        (si * PARTICLES_PER_SHELL + p) * 3 + 1 := riseY sh,
        (si * PARTICLES_PER_SHELL + p) * 3 + 2 := shellZ sh]"
  by (simp_all add: burstParticle_def burstVelocity_def burstColor_def Let_def)

lemma burstLoop_lengths [simp]:
  "length (fwVelocities (foldl (burstParticle si sh rnd) st [0..<n])) = length (fwVelocities st)"
  "length (fwColors (foldl (burstParticle si sh rnd) st [0..<n])) = length (fwColors st)"
  "length (fwPositions (foldl (burstParticle si sh rnd) st [0..<n])) = length (fwPositions st)"
  by (induction n) simp_all

lemma triple_update_own:
  "i * 3 + 2 < length xs \<Longrightarrow>
     xs[i * 3 := a, i * 3 + 1 := b, i * 3 + 2 := c] ! (i * 3) = a \<and>
     xs[i * 3 := a, i * 3 + 1 := b, i * 3 + 2 := c] ! (i * 3 + 1) = b \<and>
     xs[i * 3 := a, i * 3 + 1 := b, i * 3 + 2 := c] ! (i * 3 + 2) = c"
  by (simp add: nth_list_update)

lemma triple_update_other:
  assumes "j \<noteq> i"
  shows "xs[i * 3 := u, i * 3 + 1 := v, i * 3 + 2 := w] ! (j * 3) = xs ! (j * 3)"
    "xs[i * 3 := u, i * 3 + 1 := v, i * 3 + 2 := w] ! (j * 3 + 1) = xs ! (j * 3 + 1)"
    "xs[i * 3 := u, i * 3 + 1 := v, i * 3 + 2 := w] ! (j * 3 + 2) = xs ! (j * 3 + 2)"
proof -
  have "i * 3 \<noteq> j * 3" "i * 3 + 1 \<noteq> j * 3" "i * 3 + 2 \<noteq> j * 3"
    "i * 3 \<noteq> j * 3 + 1" "i * 3 + 1 \<noteq> j * 3 + 1" "i * 3 + 2 \<noteq> j * 3 + 1"
    "i * 3 \<noteq> j * 3 + 2" "i * 3 + 1 \<noteq> j * 3 + 2" "i * 3 + 2 \<noteq> j * 3 + 2"
    using assms by presburger+
  then show "xs[i * 3 := u, i * 3 + 1 := v, i * 3 + 2 := w] ! (j * 3) = xs ! (j * 3)"
    "xs[i * 3 := u, i * 3 + 1 := v, i * 3 + 2 := w] ! (j * 3 + 1) = xs ! (j * 3 + 1)"
    "xs[i * 3 := u, i * 3 + 1 := v, i * 3 + 2 := w] ! (j * 3 + 2) = xs ! (j * 3 + 2)"
    by (simp_all only: nth_list_update_neq not_False_eq_True)
qed

lemma burstLoop_Suc:
  "foldl (burstParticle si sh rnd) st [0..<Suc n] =
     burstParticle si sh rnd (foldl (burstParticle si sh rnd) st [0..<n]) n"
  by simp



lemma burstLoop_positions:
  assumes "p < n" "(si * PARTICLES_PER_SHELL + p) * 3 + 2 < length (fwPositions st)"
  shows "fwPositions (foldl (burstParticle si sh rnd) st [0..<n]) !
            ((si * PARTICLES_PER_SHELL + p) * 3) = shellX sh \<and>
         fwPositions (foldl (burstParticle si sh rnd) st [0..<n]) !
            ((si * PARTICLES_PER_SHELL + p) * 3 + 1) = riseY sh \<and>
         fwPositions (foldl (burstParticle si sh rnd) st [0..<n]) !
            ((si * PARTICLES_PER_SHELL + p) * 3 + 2) = shellZ sh"
  using assms(1)
proof (induction n)
  case 0
  then show ?case by simp
next
  case (Suc n)
  let ?mid = "foldl (burstParticle si sh rnd) st [0..<n]"
  show ?case
  proof (cases "p = n")
    case True
    have "(si * PARTICLES_PER_SHELL + n) * 3 + 2 < length (fwPositions ?mid)"
      using assms(2) True by simp
    from triple_update_own[OF this] show ?thesis unfolding True by simp
  next
    case False
    then have ih: "p < n" using Suc.prems by simp
    have ne: "si * PARTICLES_PER_SHELL + p \<noteq> si * PARTICLES_PER_SHELL + n" using False by simp
    show ?thesis
      unfolding burstLoop_Suc burstParticle_triples triple_update_other[OF ne]
      by (rule Suc.IH[OF ih])
  qed
qed





subsection \<open>Phase transitions of a shell\<close>

text \<open>
  The frame callback updates the shells one after the other.  The lemmas below describe
  what the update of shell \<open>s\<close> does to its own record and to its own slice of the
  \<open>ages\<close> and \<open>lifetimes\<close> buffers, and show that the launch timer and the updates
  of the other shells leave both alone (\<open>sameShell\<close>).
\<close>

lemma trailParticle_proj [simp]:
  "shells (trailParticle s sh rnd st t) = shells st"
  "fwAges (trailParticle s sh rnd st t) = fwAges st"
  "fwLifetimes (trailParticle s sh rnd st t) = fwLifetimes st"
  "shells (hideTrailParticle s st t) = shells st"
  "fwAges (hideTrailParticle s st t) = fwAges st"
  "fwLifetimes (hideTrailParticle s st t) = fwLifetimes st"
  by (simp_all add: trailParticle_def hideTrailParticle_def Let_def)

lemma trailLoop_proj [simp]:
  "shells (foldl (trailParticle s sh rnd) st ts) = shells st"
  "fwAges (foldl (trailParticle s sh rnd) st ts) = fwAges st"
  "fwLifetimes (foldl (trailParticle s sh rnd) st ts) = fwLifetimes st"
  "shells (foldl (hideTrailParticle s) st ts) = shells st"
  "fwAges (foldl (hideTrailParticle s) st ts) = fwAges st"
  "fwLifetimes (foldl (hideTrailParticle s) st ts) = fwLifetimes st"
  by (induction ts arbitrary: st) simp_all

text \<open>\<open>risen delta sh\<close> is the shell after \<open>shell.riseY += shell.riseVelocity * delta\<close>.\<close>

definition risen :: "real \<Rightarrow> ShellState \<Rightarrow> ShellState" where
  "risen delta sh = sh\<lparr>riseY := riseY sh + riseVelocity sh * delta\<rparr>"

lemma risingShell_burst:
  assumes "targetY (shells st ! s) \<le> riseY (shells st ! s) + riseVelocity (shells st ! s) * delta"
  shows "shells (risingShell delta rnd st s) =
           (shells st)[s := (risen delta (shells st ! s))\<lparr>phase := Burst, burstAge := 0\<rparr>]"
    "fwAges (risingShell delta rnd st s) =
       fwAges (burstShell s ((risen delta (shells st ! s))\<lparr>phase := Burst, burstAge := 0\<rparr>) rnd
         ((foldl (trailParticle s (shells st ! s) rnd) st [0..<TRAIL_PARTICLES_PER_SHELL])
            \<lparr>shells := (shells st)[s := (risen delta (shells st ! s))\<lparr>phase := Burst, burstAge := 0\<rparr>]\<rparr>))"
    "fwLifetimes (risingShell delta rnd st s) =
       fwLifetimes (burstShell s ((risen delta (shells st ! s))\<lparr>phase := Burst, burstAge := 0\<rparr>) rnd
         ((foldl (trailParticle s (shells st ! s) rnd) st [0..<TRAIL_PARTICLES_PER_SHELL])
            \<lparr>shells := (shells st)[s := (risen delta (shells st ! s))\<lparr>phase := Burst, burstAge := 0\<rparr>]\<rparr>))"
  using assms by (simp_all add: risingShell_def Let_def risen_def burstShell_def)

lemma risingShell_rise:
  assumes "\<not> targetY (shells st ! s) \<le> riseY (shells st ! s) + riseVelocity (shells st ! s) * delta"
  shows "shells (risingShell delta rnd st s) = (shells st)[s := risen delta (shells st ! s)]"
    "fwAges (risingShell delta rnd st s) = fwAges st"
    "fwLifetimes (risingShell delta rnd st s) = fwLifetimes st"
  using assms by (simp_all add: risingShell_def Let_def risen_def)


lemma burstingParticle_proj [simp]:
  "shells (fst (burstingParticle s sh delta rnd acc p)) = shells (fst acc)"
  "fwLifetimes (fst (burstingParticle s sh delta rnd acc p)) = fwLifetimes (fst acc)"
  "fwAges (fst (burstingParticle s sh delta rnd acc p)) =
     (fwAges (fst acc))
       [s * PARTICLES_PER_SHELL + p := fwAges (fst acc) ! (s * PARTICLES_PER_SHELL + p) + delta]"
  by (simp_all add: burstingParticle_def Let_def)

lemma burstingParticle_allDead:
  "s * PARTICLES_PER_SHELL + p < length (fwAges (fst acc)) \<Longrightarrow>
   snd (burstingParticle s sh delta rnd acc p) =
     (snd acc \<and>
      fwLifetimes (fst acc) ! (s * PARTICLES_PER_SHELL + p) <
        fwAges (fst acc) ! (s * PARTICLES_PER_SHELL + p) + delta)"
  by (simp add: burstingParticle_def Let_def)

lemma burstingLoop_proj [simp]:
  "shells (fst (foldl (burstingParticle s sh delta rnd) acc [0..<n])) = shells (fst acc)"
  "fwLifetimes (fst (foldl (burstingParticle s sh delta rnd) acc [0..<n])) = fwLifetimes (fst acc)"
  "length (fwAges (fst (foldl (burstingParticle s sh delta rnd) acc [0..<n]))) =
     length (fwAges (fst acc))"
  by (induction n) simp_all

lemma burstingLoop_ages:
  "fwAges (fst (foldl (burstingParticle s sh delta rnd) acc [0..<n])) ! i =
     (if s * PARTICLES_PER_SHELL \<le> i \<and> i < s * PARTICLES_PER_SHELL + n \<and>
         i < length (fwAges (fst acc))
      then fwAges (fst acc) ! i + delta else fwAges (fst acc) ! i)"
proof (induction n)
  case 0
  then show ?case by simp
next
  case (Suc n)
  show ?case
  proof (cases "s * PARTICLES_PER_SHELL + n = i")
    case True
    then show ?thesis using Suc
      by (cases "i < length (fwAges (fst acc))") (auto simp add: list_update_beyond)
  next
    case False
    then show ?thesis using Suc by auto
  qed
qed

lemma burstingLoop_allDead:
  assumes "s * PARTICLES_PER_SHELL + n \<le> length (fwAges (fst acc))"
  shows "snd (foldl (burstingParticle s sh delta rnd) acc [0..<n]) =
     (snd acc \<and>
      (\<forall>p<n. fwLifetimes (fst acc) ! (s * PARTICLES_PER_SHELL + p) <
               fwAges (fst acc) ! (s * PARTICLES_PER_SHELL + p) + delta))"
  using assms
proof (induction n)
  case 0
  then show ?case by simp
next
  case (Suc n)
  let ?mid = "foldl (burstingParticle s sh delta rnd) acc [0..<n]"
  have ih: "snd ?mid =
     (snd acc \<and>
      (\<forall>p<n. fwLifetimes (fst acc) ! (s * PARTICLES_PER_SHELL + p) <
               fwAges (fst acc) ! (s * PARTICLES_PER_SHELL + p) + delta))"
    using Suc by simp
  have len: "s * PARTICLES_PER_SHELL + n < length (fwAges (fst ?mid))"
    using Suc.prems by simp
  have age: "fwAges (fst ?mid) ! (s * PARTICLES_PER_SHELL + n) =
      fwAges (fst acc) ! (s * PARTICLES_PER_SHELL + n)"
    by (simp add: burstingLoop_ages)
  have "snd (foldl (burstingParticle s sh delta rnd) acc [0..<Suc n]) =
      (snd ?mid \<and>
        fwLifetimes (fst ?mid) ! (s * PARTICLES_PER_SHELL + n) <
        fwAges (fst ?mid) ! (s * PARTICLES_PER_SHELL + n) + delta)"
    using burstingParticle_allDead[OF len] by simp
  then show ?case unfolding ih age by (auto simp add: less_Suc_eq)
qed

lemma burstingShell_shells:
  assumes "s < length (shells st)" "s * PARTICLES_PER_SHELL + PARTICLES_PER_SHELL \<le> length (fwAges st)"
  shows "shells (burstingShell delta rnd st s) =
     (shells st)[s := (shells st ! s)
        \<lparr>burstAge := burstAge (shells st ! s) + delta,
         active :=
           active (shells st ! s) \<and>
           \<not> (\<forall>p<PARTICLES_PER_SHELL.
                 fwLifetimes st ! (s * PARTICLES_PER_SHELL + p) <
                 fwAges st ! (s * PARTICLES_PER_SHELL + p) + delta)\<rparr>]"
proof -
  let ?sh1 = "(shells st ! s)\<lparr>burstAge := burstAge (shells st ! s) + delta\<rparr>"
  let ?st1 = "st\<lparr>shells := (shells st)[s := ?sh1]\<rparr>"
  let ?acc = "foldl (burstingParticle s ?sh1 delta rnd) (?st1, True) [0..<PARTICLES_PER_SHELL]"
  have "s * PARTICLES_PER_SHELL + PARTICLES_PER_SHELL \<le> length (fwAges (fst (?st1, True)))"
    using assms(2) by simp
  from burstingLoop_allDead[OF this, of ?sh1 delta rnd]
  have dead: "snd ?acc =
      (\<forall>p<PARTICLES_PER_SHELL.
          fwLifetimes st ! (s * PARTICLES_PER_SHELL + p) <
          fwAges st ! (s * PARTICLES_PER_SHELL + p) + delta)"
    by simp
  have sh: "shells (fst ?acc) = (shells st)[s := ?sh1]" by simp
  define D where "D = (\<forall>p<PARTICLES_PER_SHELL.
          fwLifetimes st ! (s * PARTICLES_PER_SHELL + p) <
          fwAges st ! (s * PARTICLES_PER_SHELL + p) + delta)"
  have res: "shells (burstingShell delta rnd st s) =
      (if D then (shells st)[s := ?sh1\<lparr>active := False\<rparr>] else (shells st)[s := ?sh1])"
    using dead sh assms(1) unfolding D_def[symmetric]
    by (simp add: burstingShell_def Let_def)
  have keep: "?sh1\<lparr>active := active (shells st ! s)\<rparr> = ?sh1" by simp
  show ?thesis unfolding res D_def[symmetric]
  proof (cases D)
    case True
    then show "(if D then (shells st)[s := ?sh1\<lparr>active := False\<rparr>] else (shells st)[s := ?sh1]) =
      (shells st)[s := (shells st ! s)\<lparr>burstAge := burstAge (shells st ! s) + delta,
         active := active (shells st ! s) \<and> \<not> D\<rparr>]" by simp
  next
    case False
    then show "(if D then (shells st)[s := ?sh1\<lparr>active := False\<rparr>] else (shells st)[s := ?sh1]) =
      (shells st)[s := (shells st ! s)\<lparr>burstAge := burstAge (shells st ! s) + delta,
         active := active (shells st ! s) \<and> \<not> D\<rparr>]" using keep by simp
  qed
qed

lemma burstingShell_arrays:
  "fwLifetimes (burstingShell delta rnd st s) = fwLifetimes st"
  "length (fwAges (burstingShell delta rnd st s)) = length (fwAges st)"
  "fwAges (burstingShell delta rnd st s) ! i =
     (if s * PARTICLES_PER_SHELL \<le> i \<and> i < s * PARTICLES_PER_SHELL + PARTICLES_PER_SHELL \<and>
         i < length (fwAges st)
      then fwAges st ! i + delta else fwAges st ! i)"
  by (simp_all add: burstingShell_def Let_def burstingLoop_ages)

text \<open>
  \<open>sameShell s st st'\<close>: the two states have buffers of the same lengths and agree on the
  record of shell \<open>s\<close> and on its slice of \<open>ages\<close> and \<open>lifetimes\<close>.
\<close>

definition sameShell :: "nat \<Rightarrow> fireworks \<Rightarrow> fireworks \<Rightarrow> bool" where
  "sameShell s st st' =
     (length (shells st') = length (shells st) \<and>
      length (fwAges st') = length (fwAges st) \<and>
      length (fwLifetimes st') = length (fwLifetimes st) \<and>
      shells st' ! s = shells st ! s \<and>
      (\<forall>p<PARTICLES_PER_SHELL.
         fwAges st' ! (s * PARTICLES_PER_SHELL + p) = fwAges st ! (s * PARTICLES_PER_SHELL + p) \<and>
         fwLifetimes st' ! (s * PARTICLES_PER_SHELL + p) =
           fwLifetimes st ! (s * PARTICLES_PER_SHELL + p)))"

lemma sameShell_refl: "sameShell s st st"
  by (simp add: sameShell_def)

lemma sameShell_trans: "sameShell s a b \<Longrightarrow> sameShell s b c \<Longrightarrow> sameShell s a c"
  by (simp add: sameShell_def)

lemma slice_disjoint:
  assumes "s \<noteq> j" "p < K" "j * K \<le> s * K + p" "s * K + p < j * K + (K::nat)"
  shows False
proof (cases "s < j")
  case True
  then have "Suc s * K \<le> j * K" by (intro mult_le_mono1) simp
  then show False using assms(2,3) by simp
next
  case False
  then have "Suc j * K \<le> s * K" using assms(1) by (intro mult_le_mono1) simp
  then show False using assms(4) by simp
qed

lemma burstShell_other:
  assumes "s \<noteq> j" "p < PARTICLES_PER_SHELL"
  shows "fwAges (burstShell j sh rnd st) ! (s * PARTICLES_PER_SHELL + p) =
           fwAges st ! (s * PARTICLES_PER_SHELL + p)"
    "fwLifetimes (burstShell j sh rnd st) ! (s * PARTICLES_PER_SHELL + p) =
           fwLifetimes st ! (s * PARTICLES_PER_SHELL + p)"
  using slice_disjoint[OF assms]
  by (auto simp add: burstShell_def burstLoop_ages burstLoop_lifetimes)

lemma risingShell_other:
  assumes "s \<noteq> j"
  shows "sameShell s st (risingShell delta rnd st j)"
proof (cases "targetY (shells st ! j) \<le> riseY (shells st ! j) + riseVelocity (shells st ! j) * delta")
  case True
  show ?thesis
    unfolding sameShell_def risingShell_burst[OF True]
    using assms by (simp add: burstShell_other) (simp add: burstShell_def)
next
  case False
  show ?thesis
    unfolding sameShell_def risingShell_rise[OF False]
    using assms by simp
qed

lemma burstingShell_other:
  assumes "s \<noteq> j"
  shows "sameShell s st (burstingShell delta rnd st j)"
proof -
  have sh: "length (shells (burstingShell delta rnd st j)) = length (shells st) \<and>
      shells (burstingShell delta rnd st j) ! s = shells st ! s"
    using assms by (simp add: burstingShell_def Let_def)
  have "fwAges (burstingShell delta rnd st j) ! (s * PARTICLES_PER_SHELL + p) =
      fwAges st ! (s * PARTICLES_PER_SHELL + p)" if "p < PARTICLES_PER_SHELL" for p
    using slice_disjoint[OF assms that]
    by (auto simp add: burstingShell_arrays)
  then show ?thesis using sh by (simp add: sameShell_def burstingShell_arrays)
qed

lemma updateShell_other: "s \<noteq> j \<Longrightarrow> sameShell s st (updateShell delta rnd st j)"
  by (simp add: updateShell_def Let_def sameShell_refl risingShell_other burstingShell_other)

lemma updateLoop_other:
  "s \<notin> set js \<Longrightarrow> sameShell s st (foldl (updateShell delta rnd) st js)"
proof (induction js arbitrary: st)
  case Nil
  then show ?case by (simp add: sameShell_refl)
next
  case (Cons j js)
  have "sameShell s st (updateShell delta rnd st j)"
    using Cons.prems by (intro updateShell_other) auto
  moreover have "sameShell s (updateShell delta rnd st j)
      (foldl (updateShell delta rnd) (updateShell delta rnd st j) js)"
    using Cons.prems by (intro Cons.IH) simp
  ultimately show ?case using sameShell_trans by simp
qed

lemma launchOnTimer_active:
  assumes "length (shells st) = MAX_SHELLS" "active (shells st ! s)"
  shows "sameShell s st (launchOnTimer delta rnd origin st)"
proof -
  from launchOnTimer_cases[OF assms(1), of delta rnd origin]
  consider "launchOnTimer delta rnd origin st = st\<lparr>launchTimerRef := launchTimerRef st + delta\<rparr>"
    | "launchOnTimer delta rnd origin st = st\<lparr>launchTimerRef := 0\<rparr>"
    | j0 where "\<not> active (shells st ! j0)"
        "launchOnTimer delta rnd origin st = launchAt rnd origin j0 (st\<lparr>launchTimerRef := 0\<rparr>)"
    by blast
  then show ?thesis
  proof cases
    case 1
    then show ?thesis by (simp add: sameShell_def)
  next
    case 2
    then show ?thesis by (simp add: sameShell_def)
  next
    case 3
    then have "j0 \<noteq> s" using assms(2) by auto
    then show ?thesis unfolding 3(2) by (simp add: sameShell_def)
  qed
qed


lemma shell_loop_split:
  assumes "s < n"
  shows "foldl f st [0..<n] = foldl f (f (foldl f st [0..<s]) s) [Suc s..<n]"
proof -
  have "[0..<n] = [0..<s] @ s # [Suc s..<n]"
    using assms upt_add_eq_append[of 0 s "n - s"] by (simp add: upt_conv_Cons)
  then show ?thesis by simp
qed

lemma updateShell_own:
  assumes act: "active (shells st ! s)" and s: "s < length (shells st)"
    and len: "s * PARTICLES_PER_SHELL + PARTICLES_PER_SHELL \<le> length (fwAges st)"
  shows "length (shells (updateShell delta rnd st s)) = length (shells st)"
    "phase (shells st ! s) = Rising \<Longrightarrow>
       targetY (shells st ! s) \<le> riseY (shells st ! s) + riseVelocity (shells st ! s) * delta \<Longrightarrow>
       shells (updateShell delta rnd st s) ! s =
         (risen delta (shells st ! s))\<lparr>phase := Burst, burstAge := 0\<rparr> \<and>
       (\<forall>p<PARTICLES_PER_SHELL.
          fwAges (updateShell delta rnd st s) ! (s * PARTICLES_PER_SHELL + p) = 0)"
    "phase (shells st ! s) = Rising \<Longrightarrow>
       \<not> targetY (shells st ! s) \<le> riseY (shells st ! s) + riseVelocity (shells st ! s) * delta \<Longrightarrow>
       shells (updateShell delta rnd st s) ! s = risen delta (shells st ! s)"
    "phase (shells st ! s) = Burst \<Longrightarrow>
       shells (updateShell delta rnd st s) ! s =
         (shells st ! s)
           \<lparr>burstAge := burstAge (shells st ! s) + delta,
            active :=
              \<not> (\<forall>p<PARTICLES_PER_SHELL.
                    fwLifetimes st ! (s * PARTICLES_PER_SHELL + p) <
                    fwAges st ! (s * PARTICLES_PER_SHELL + p) + delta)\<rparr> \<and>
       (\<forall>p<PARTICLES_PER_SHELL.
          fwAges (updateShell delta rnd st s) ! (s * PARTICLES_PER_SHELL + p) =
            fwAges st ! (s * PARTICLES_PER_SHELL + p) + delta)"
proof -
  let ?sh = "shells st ! s"
  let ?cond = "targetY ?sh \<le> riseY ?sh + riseVelocity ?sh * delta"
  show "length (shells (updateShell delta rnd st s)) = length (shells st)"
  proof (cases "phase ?sh")
    case Rising
    then show ?thesis using act
      by (cases ?cond) (simp_all add: updateShell_def Let_def risingShell_burst risingShell_rise)
  next
    case Burst
    then show ?thesis using act
      by (simp add: updateShell_def Let_def burstingShell_shells[OF s len])
  qed
  show "shells (updateShell delta rnd st s) ! s =
         (risen delta ?sh)\<lparr>phase := Burst, burstAge := 0\<rparr> \<and>
       (\<forall>p<PARTICLES_PER_SHELL.
          fwAges (updateShell delta rnd st s) ! (s * PARTICLES_PER_SHELL + p) = 0)"
    if r: "phase ?sh = Rising" and c: ?cond
  proof -
    have u: "updateShell delta rnd st s = risingShell delta rnd st s"
      using act r by (simp add: updateShell_def)
    have "fwAges (risingShell delta rnd st s) ! (s * PARTICLES_PER_SHELL + p) = 0"
      if "p < PARTICLES_PER_SHELL" for p
      unfolding risingShell_burst(2)[OF c] burstShell_def burstLoop_ages
      using that len by simp
    then show ?thesis unfolding u using s by (simp add: risingShell_burst(1)[OF c])
  qed
  show "shells (updateShell delta rnd st s) ! s = risen delta ?sh"
    if r: "phase ?sh = Rising" and c: "\<not> ?cond"
    using act r s by (simp add: updateShell_def risingShell_rise(1)[OF c])
  show "shells (updateShell delta rnd st s) ! s =
         ?sh\<lparr>burstAge := burstAge ?sh + delta,
            active :=
              \<not> (\<forall>p<PARTICLES_PER_SHELL.
                    fwLifetimes st ! (s * PARTICLES_PER_SHELL + p) <
                    fwAges st ! (s * PARTICLES_PER_SHELL + p) + delta)\<rparr> \<and>
       (\<forall>p<PARTICLES_PER_SHELL.
          fwAges (updateShell delta rnd st s) ! (s * PARTICLES_PER_SHELL + p) =
            fwAges st ! (s * PARTICLES_PER_SHELL + p) + delta)"
    if b: "phase ?sh = Burst"
  proof -
    have u: "updateShell delta rnd st s = burstingShell delta rnd st s"
      using act b by (simp add: updateShell_def)
    have "fwAges (burstingShell delta rnd st s) ! (s * PARTICLES_PER_SHELL + p) =
        fwAges st ! (s * PARTICLES_PER_SHELL + p) + delta" if "p < PARTICLES_PER_SHELL" for p
      using that len by (simp add: burstingShell_arrays)
    then show ?thesis unfolding u using s act by (simp add: burstingShell_shells[OF s len])
  qed
qed


lemma frame_around_shell:
  assumes len: "length (shells st) = MAX_SHELLS" "length (fwAges st) = TOTAL_PARTICLES"
    and s: "s < MAX_SHELLS" and act: "active (shells st ! s)"
  shows "\<exists>mid. sameShell s st mid \<and>
           sameShell s (updateShell (min rawDelta (5 / 100)) rnd mid s)
             (fireworksFrame True True rawDelta rnd origin st)"
proof -
  let ?d = "min rawDelta (5 / 100)"
  let ?st1 = "st\<lparr>materialOpacity := damp (materialOpacity st) 1 3 ?d,
                   trailMatOpacity := damp (trailMatOpacity st) (7 / 10) 3 ?d\<rparr>"
  let ?st2 = "launchOnTimer ?d rnd origin ?st1"
  let ?mid = "foldl (updateShell ?d rnd) ?st2 [0..<s]"
  let ?own = "updateShell ?d rnd ?mid s"
  have fr: "fireworksFrame True True rawDelta rnd origin st =
      foldl (updateShell ?d rnd) ?own [Suc s..<MAX_SHELLS]"
    unfolding fireworksFrame_def Let_def shell_loop_split[OF s, symmetric] by simp
  have a: "sameShell s st ?st1" by (simp add: sameShell_def)
  have b: "sameShell s ?st1 ?st2" using len act by (intro launchOnTimer_active) simp_all
  have c: "sameShell s ?st2 ?mid" by (intro updateLoop_other) simp
  have m: "sameShell s st ?mid" using a b c sameShell_trans by blast
  have e: "sameShell s ?own (fireworksFrame True True rawDelta rnd origin st)"
    unfolding fr by (intro updateLoop_other) simp
  show ?thesis using m e by blast
qed

text \<open>
  Claim C4.  Let the pool hold its 12 shells and the \<open>ages\<close> buffer its
  \<open>TOTAL_PARTICLES\<close> entries, and let shell \<open>s\<close> be active when an active frame starts;
  \<open>delta\<close> is the clamped frame time.  If the shell is rising and its height after this
  frame's step, \<open>riseY + riseVelocity * delta\<close>, reaches \<open>targetY\<close>, then at the end of
  the same frame it is still active, in the burst phase with \<open>burstAge = 0\<close>, and the 80
  entries of its slice of \<open>ages\<close> are 0; \<open>burstShell\<close> changes no age outside that slice.
  If the height stays below \<open>targetY\<close> the shell keeps rising.  If the shell is in the
  burst phase, every age of its slice grows by \<open>delta\<close>, the lifetimes stay, and the shell
  is active at the end of the frame exactly when some particle of the slice has
  \<open>age \<le> lifetime\<close>; in particular, when every particle of the slice already had
  \<open>age > lifetime\<close> and the frame time is not negative, the shell is inactive at the end of
  the frame.  An inactive shell is launched again (active, rising) by the next due launch
  timer when all shells before it are active.
\<close>

theorem shell_phase_transitions:
  fixes st :: fireworks and rnd :: random and origin :: vec3 and rawDelta :: real and s :: nat
  defines "delta \<equiv> min rawDelta (5 / 100)"
  defines "st' \<equiv> fireworksFrame True True rawDelta rnd origin st"
  defines "sh \<equiv> shells st ! s"
  defines "sh' \<equiv> shells st' ! s"
  defines "owned \<equiv> \<lambda>p. s * PARTICLES_PER_SHELL + p"
  assumes len: "length (shells st) = MAX_SHELLS" "length (fwAges st) = TOTAL_PARTICLES"
    and s: "s < MAX_SHELLS" and act: "active sh"
  shows "length (shells st') = MAX_SHELLS \<and>
         (phase sh = Rising \<and> targetY sh \<le> riseY sh + riseVelocity sh * delta \<longrightarrow>
            active sh' \<and> phase sh' = Burst \<and> burstAge sh' = 0 \<and>
            riseY sh' = riseY sh + riseVelocity sh * delta \<and>
            (\<forall>p<PARTICLES_PER_SHELL. fwAges st' ! owned p = 0)) \<and>
         (phase sh = Rising \<and> riseY sh + riseVelocity sh * delta < targetY sh \<longrightarrow>
            active sh' \<and> phase sh' = Rising \<and>
            riseY sh' = riseY sh + riseVelocity sh * delta) \<and>
         (phase sh = Burst \<longrightarrow>
            phase sh' = Burst \<and>
            (\<forall>p<PARTICLES_PER_SHELL. fwAges st' ! owned p = fwAges st ! owned p + delta) \<and>
            (\<forall>p<PARTICLES_PER_SHELL. fwLifetimes st' ! owned p = fwLifetimes st ! owned p) \<and>
            (active sh' \<longleftrightarrow>
               (\<exists>p<PARTICLES_PER_SHELL. fwAges st' ! owned p \<le> fwLifetimes st' ! owned p))) \<and>
         (phase sh = Burst \<and> 0 \<le> rawDelta \<and>
          (\<forall>p<PARTICLES_PER_SHELL. fwLifetimes st ! owned p < fwAges st ! owned p) \<longrightarrow>
            \<not> active sh') \<and>
         (\<forall>d r. \<not> active sh' \<and> (\<forall>j<s. active (shells st' ! j)) \<and>
              LAUNCH_INTERVAL \<le> launchTimerRef st' + d \<longrightarrow>
            active (shells (launchOnTimer d r origin st') ! s) \<and>
            phase (shells (launchOnTimer d r origin st') ! s) = Rising) \<and>
         (\<forall>x i. \<not> (owned 0 \<le> i \<and> i < owned PARTICLES_PER_SHELL) \<longrightarrow>
            fwAges (burstShell s sh rnd x) ! i = fwAges x ! i)"
proof -
  from frame_around_shell[OF len s act[unfolded sh_def], of rawDelta rnd origin]
  obtain mid where m: "sameShell s st mid"
    and e: "sameShell s (updateShell delta rnd mid s) st'"
    unfolding delta_def st'_def by blast
  let ?own = "updateShell delta rnd mid s"
  have msh: "shells mid ! s = sh" using m by (simp add: sameShell_def sh_def)
  have mlen: "s < length (shells mid)" using m len s by (simp add: sameShell_def)
  have mages: "s * PARTICLES_PER_SHELL + PARTICLES_PER_SHELL \<le> length (fwAges mid)"
    using m len s by (simp add: sameShell_def firework_counts)
  have mact: "active (shells mid ! s)" using act msh by simp
  note own = updateShell_own[OF mact mlen mages, of delta rnd, unfolded msh]
  have sh': "sh' = shells ?own ! s" using e by (simp add: sameShell_def sh'_def)
  have ages': "fwAges st' ! owned p = fwAges ?own ! owned p" if "p < PARTICLES_PER_SHELL" for p
    using e that by (simp add: sameShell_def owned_def)
  have lifes': "fwLifetimes st' ! owned p = fwLifetimes ?own ! owned p"
    if "p < PARTICLES_PER_SHELL" for p
    using e that by (simp add: sameShell_def owned_def)
  have mid_ages: "fwAges mid ! owned p = fwAges st ! owned p" if "p < PARTICLES_PER_SHELL" for p
    using m that by (simp add: sameShell_def owned_def)
  have mid_lifes: "fwLifetimes mid ! owned p = fwLifetimes st ! owned p"
    if "p < PARTICLES_PER_SHELL" for p
    using m that by (simp add: sameShell_def owned_def)
  have l': "length (shells st') = MAX_SHELLS"
    using e own(1) m len by (simp add: sameShell_def)
  have rise_burst: "active sh' \<and> phase sh' = Burst \<and> burstAge sh' = 0 \<and>
            riseY sh' = riseY sh + riseVelocity sh * delta \<and>
            (\<forall>p<PARTICLES_PER_SHELL. fwAges st' ! owned p = 0)"
    if h: "phase sh = Rising" "targetY sh \<le> riseY sh + riseVelocity sh * delta"
  proof -
    note o = own(2)[OF h]
    have "\<forall>p<PARTICLES_PER_SHELL. fwAges st' ! owned p = 0"
      using o ages' by (simp add: owned_def)
    then show ?thesis using o act by (simp add: sh' risen_def)
  qed
  have rise_on: "active sh' \<and> phase sh' = Rising \<and>
            riseY sh' = riseY sh + riseVelocity sh * delta"
    if h: "phase sh = Rising" "riseY sh + riseVelocity sh * delta < targetY sh"
  proof -
    have "\<not> targetY sh \<le> riseY sh + riseVelocity sh * delta" using h(2) by simp
    note o = own(3)[OF h(1) this]
    show ?thesis using act h(1) by (simp add: sh' o risen_def)
  qed
  have own_lifes: "fwLifetimes ?own = fwLifetimes mid" if "phase sh = Burst"
    using that mact msh by (simp add: updateShell_def burstingShell_arrays)
  have bursting: "phase sh' = Burst \<and>
            (\<forall>p<PARTICLES_PER_SHELL. fwAges st' ! owned p = fwAges st ! owned p + delta) \<and>
            (\<forall>p<PARTICLES_PER_SHELL. fwLifetimes st' ! owned p = fwLifetimes st ! owned p) \<and>
            (active sh' \<longleftrightarrow>
               (\<exists>p<PARTICLES_PER_SHELL. fwAges st' ! owned p \<le> fwLifetimes st' ! owned p))"
    if h: "phase sh = Burst"
  proof -
    note o = own(4)[OF h]
    have a: "\<forall>p<PARTICLES_PER_SHELL. fwAges st' ! owned p = fwAges st ! owned p + delta"
      using o ages' mid_ages by (simp add: owned_def)
    have b: "\<forall>p<PARTICLES_PER_SHELL. fwLifetimes st' ! owned p = fwLifetimes st ! owned p"
      using lifes' mid_lifes own_lifes[OF h] by simp
    have c: "active sh' \<longleftrightarrow>
        \<not> (\<forall>p<PARTICLES_PER_SHELL. fwLifetimes mid ! owned p < fwAges mid ! owned p + delta)"
      using o by (simp add: sh' owned_def)
    have d: "active sh' \<longleftrightarrow>
        (\<exists>p<PARTICLES_PER_SHELL. fwAges st' ! owned p \<le> fwLifetimes st' ! owned p)"
      unfolding c using a b mid_ages mid_lifes by (auto simp add: not_less)
    show ?thesis using a b d o h by (simp add: sh')
  qed
  have dead: "\<not> active sh'"
    if h: "phase sh = Burst" "0 \<le> rawDelta"
      "\<forall>p<PARTICLES_PER_SHELL. fwLifetimes st ! owned p < fwAges st ! owned p"
  proof -
    have d0: "0 \<le> delta" using h(2) by (simp add: delta_def)
    note b = bursting[OF h(1)]
    have "\<not> (\<exists>p<PARTICLES_PER_SHELL. fwAges st' ! owned p \<le> fwLifetimes st' ! owned p)"
    proof
      assume "\<exists>p<PARTICLES_PER_SHELL. fwAges st' ! owned p \<le> fwLifetimes st' ! owned p"
      then obtain p where p: "p < PARTICLES_PER_SHELL"
        "fwAges st' ! owned p \<le> fwLifetimes st' ! owned p" by blast
      have "fwAges st ! owned p + delta \<le> fwLifetimes st ! owned p" using p b by simp
      moreover have "fwLifetimes st ! owned p < fwAges st ! owned p" using h(3) p(1) by simp
      ultimately show False using d0 by linarith
    qed
    then show ?thesis using b by simp
  qed
  have relaunch: "active (shells (launchOnTimer d r origin st') ! s) \<and>
            phase (shells (launchOnTimer d r origin st') ! s) = Rising"
    if h: "\<not> active sh'" "\<forall>j<s. active (shells st' ! j)"
      "LAUNCH_INTERVAL \<le> launchTimerRef st' + d" for d r
  proof -
    let ?z = "st'\<lparr>launchTimerRef := 0\<rparr>"
    have 1: "\<not> active (shells ?z ! s)" using h(1) by (simp add: sh'_def)
    have 2: "\<forall>j. 0 \<le> j \<and> j < s \<longrightarrow> active (shells ?z ! j)" using h(2) by simp
    have "launchOnTimer d r origin st' = launchAt r origin s ?z"
      unfolding launchOnTimer_proj(2)[OF h(3)]
      by (rule launchFirstInactive_some[OF _ s 1 2]) simp
    then show ?thesis using l' s by simp
  qed
  have slice: "fwAges (burstShell s sh rnd x) ! i = fwAges x ! i"
    if "\<not> (owned 0 \<le> i \<and> i < owned PARTICLES_PER_SHELL)" for x i
    using that unfolding burstShell_def burstLoop_ages by (auto simp add: owned_def)
  show ?thesis using l' rise_burst rise_on bursting dead relaunch slice by blast
qed


theorem shell_phase_transitions_witness:
  "length (shells initialFireworks) = MAX_SHELLS \<and>
   length (fwAges initialFireworks) = TOTAL_PARTICLES \<and>
   phase (shells (fireworksFrame True True (1 / 60) (\<lambda>k. 1 / 2) (vec 0 5 (- 14))
      (initialFireworks\<lparr>shells := (shells initialFireworks)
        [0 := initShell\<lparr>active := True, riseVelocity := 10, targetY := 1 / 10\<rparr>]\<rparr>)) ! 0) = Burst \<and>
   active (shells (fireworksFrame True True (1 / 60) (\<lambda>k. 1 / 2) (vec 0 5 (- 14))
      (initialFireworks\<lparr>shells := (shells initialFireworks)
        [0 := initShell\<lparr>active := True, riseVelocity := 10, targetY := 1 / 10\<rparr>]\<rparr>)) ! 0) \<and>
   fwAges (fireworksFrame True True (1 / 60) (\<lambda>k. 1 / 2) (vec 0 5 (- 14))
      (initialFireworks\<lparr>shells := (shells initialFireworks)
        [0 := initShell\<lparr>active := True, riseVelocity := 10, targetY := 1 / 10\<rparr>]\<rparr>)) ! 79 = 0 \<and>
   \<not> active (shells (fireworksFrame True True (1 / 60) (\<lambda>k. 1 / 2) (vec 0 5 (- 14))
      (initialFireworks\<lparr>shells := (shells initialFireworks)
        [0 := initShell\<lparr>active := True, phase := Burst\<rparr>]\<rparr>)) ! 0)"
proof -
  let ?rnd = "\<lambda>k::nat. 1 / 2 :: real"
  let ?o = "vec 0 5 (- 14)"
  let ?R = "initialFireworks\<lparr>shells := (shells initialFireworks)
        [0 := initShell\<lparr>active := True, riseVelocity := 10, targetY := 1 / 10\<rparr>]\<rparr>"
  let ?B = "initialFireworks\<lparr>shells := (shells initialFireworks)
        [0 := initShell\<lparr>active := True, phase := Burst\<rparr>]\<rparr>"
  have len0: "length (shells initialFireworks) = MAX_SHELLS"
    "length (fwAges initialFireworks) = TOTAL_PARTICLES"
    by (simp_all add: initialFireworks_def)
  have lenR: "length (shells ?R) = MAX_SHELLS" "length (fwAges ?R) = TOTAL_PARTICLES"
    and lenB: "length (shells ?B) = MAX_SHELLS" "length (fwAges ?B) = TOTAL_PARTICLES"
    by (simp_all add: initialFireworks_def)
  have s: "(0::nat) < MAX_SHELLS" by (simp add: MAX_SHELLS_def)
  have actR: "active (shells ?R ! 0)" and actB: "active (shells ?B ! 0)"
    by (simp_all add: initialFireworks_def MAX_SHELLS_def)
  have reach: "phase (shells ?R ! 0) = Rising \<and>
      targetY (shells ?R ! 0) \<le>
        riseY (shells ?R ! 0) + riseVelocity (shells ?R ! 0) * min (1 / 60) (5 / 100)"
    by (simp add: initialFireworks_def MAX_SHELLS_def initShell_def)
  have dead: "phase (shells ?B ! 0) = Burst \<and> (0::real) \<le> 1 / 60 \<and>
      (\<forall>p<PARTICLES_PER_SHELL.
         fwLifetimes ?B ! (0 * PARTICLES_PER_SHELL + p) <
         fwAges ?B ! (0 * PARTICLES_PER_SHELL + p))"
    by (simp add: initialFireworks_def firework_counts)
  have p: "(79::nat) < PARTICLES_PER_SHELL" by (simp add: PARTICLES_PER_SHELL_def)
  note r = shell_phase_transitions[OF lenR s actR, of "1 / 60" ?rnd ?o,
      THEN conjunct2, THEN conjunct1, THEN mp, OF reach]
  note b = shell_phase_transitions[OF lenB s actB, of "1 / 60" ?rnd ?o,
      THEN conjunct2, THEN conjunct2, THEN conjunct2, THEN conjunct2, THEN conjunct1,
      THEN mp, OF dead]
  have 1: "phase (shells (fireworksFrame True True (1 / 60) ?rnd ?o ?R) ! 0) = Burst"
    using r by simp
  have 2: "active (shells (fireworksFrame True True (1 / 60) ?rnd ?o ?R) ! 0)"
    using r by simp
  have 3: "fwAges (fireworksFrame True True (1 / 60) ?rnd ?o ?R) ! 79 = 0"
    using r[THEN conjunct2, THEN conjunct2, THEN conjunct2, THEN conjunct2, THEN spec,
        of 79, THEN mp, OF p] by simp
  show ?thesis using len0 1 2 3 b by - (intro conjI, assumption+)
qed

section \<open>Interactive prop controller (src/src/models/pictureFrame.tsx)\<close>

subsection \<open>State\<close>

text \<open>
  The window's listener list holds pairs of an event type and a handler.  The two
  handlers are \<open>useCallback\<close> values whose dependencies (\<open>onDragChange\<close> is a state setter
  of \<open>App\<close>) never change, so each is one function for the life of the component, and
  \<open>addEventListener\<close> does not add a pair that is already in the list.
\<close>

datatype handler = OnWindowPointerMove | OnWindowPointerUp

definition addEventListener ::
    "string \<Rightarrow> handler \<Rightarrow> (string \<times> handler) list \<Rightarrow> (string \<times> handler) list" where
  "addEventListener type h ls = (if (type, h) \<in> set ls then ls else ls @ [(type, h)])"

definition removeEventListener ::
    "string \<Rightarrow> handler \<Rightarrow> (string \<times> handler) list \<Rightarrow> (string \<times> handler) list" where
  "removeEventListener type h ls = filter (\<lambda>l. l \<noteq> (type, h)) ls"

text \<open>
  The component's state: the prop \<open>isActive\<close> of the last render (\<open>frameActive\<close>), the
  React state \<open>isHovered\<close> and \<open>rotationOffset\<close>, the refs \<open>isDragging\<close>, \<open>hasDragged\<close> and
  \<open>previousPointerPosition\<close>, the transform of the group and the tilt of the inner group,
  the listeners on \<open>window\<close>, \<open>document.body.style.cursor\<close>, and the calls made to
  \<open>onDragChange\<close> and \<open>onToggle\<close>.  Quaternions are values of a type \<open>'q\<close> that three.js
  computes with; the rest transform and the functions of three.js used on quaternions
  are parameters.
\<close>

record 'q pictureFrame =
  frameActive :: bool
  isHovered :: bool
  isDragging :: bool
  hasDragged :: bool
  previousPointerPosition :: "real \<times> real"
  rotationOffset :: vec3
  groupPosition :: vec3
  groupQuaternion :: 'q
  innerRotationX :: real
  windowListeners :: "(string \<times> handler) list"
  bodyCursor :: string
  dragChanges :: "bool list"
  toggles :: nat

definition FRAME_CAMERA_DISTANCE :: real where "FRAME_CAMERA_DISTANCE = 1"
definition FRAME_HOVER_LIFT :: real where "FRAME_HOVER_LIFT = 4 / 100"
definition FRAME_TILT :: real where "FRAME_TILT = 435 / 1000"

subsection \<open>Effects and handlers (lines 133-153, 226-308)\<close>

text \<open>Lines 133-147 and 149-153: the two effects that depend on \<open>isActive\<close>.\<close>

definition deactivationEffect :: "vec3 \<Rightarrow> 'q \<Rightarrow> 'q pictureFrame \<Rightarrow> 'q pictureFrame" where
  "deactivationEffect defaultPosition defaultQuaternion st =
     (if \<not> frameActive st
      then st\<lparr>rotationOffset := vec 0 0 0, groupPosition := defaultPosition,
              groupQuaternion := defaultQuaternion, isDragging := False, hasDragged := False,
              dragChanges := dragChanges st @ [False], isHovered := False\<rparr>
      else st)"

text \<open>A render with a new value of the prop \<open>isActive\<close>, followed by its effects.\<close>

definition setActive :: "vec3 \<Rightarrow> 'q \<Rightarrow> bool \<Rightarrow> 'q pictureFrame \<Rightarrow> 'q pictureFrame" where
  "setActive defaultPosition defaultQuaternion b st =
     deactivationEffect defaultPosition defaultQuaternion (st\<lparr>frameActive := b\<rparr>)"

definition handlePointerOver :: "'q pictureFrame \<Rightarrow> 'q pictureFrame" where
  "handlePointerOver st = (if \<not> frameActive st then st\<lparr>isHovered := True\<rparr> else st)"

definition handlePointerOut :: "'q pictureFrame \<Rightarrow> 'q pictureFrame" where
  "handlePointerOut st = st\<lparr>isHovered := False\<rparr>"

text \<open>Lines 241-262.\<close>

definition onWindowPointerMove :: "real \<Rightarrow> real \<Rightarrow> 'q pictureFrame \<Rightarrow> 'q pictureFrame" where
  "onWindowPointerMove clientX clientY st =
     (if \<not> isDragging st then st
      else let deltaX = clientX - fst (previousPointerPosition st);
               deltaY = clientY - snd (previousPointerPosition st);
               st1 = (if \<bar>deltaX\<bar> > 2 \<or> \<bar>deltaY\<bar> > 2 then st\<lparr>hasDragged := True\<rparr> else st);
               sensitivity = 12 / 1000;
               prev = rotationOffset st1
           in st1\<lparr>rotationOffset :=
                     vec (vx prev - deltaY * sensitivity) (vy prev + deltaX * sensitivity) (vz prev),
                   previousPointerPosition := (clientX, clientY)\<rparr>)"

text \<open>Lines 264-272.\<close>

definition onWindowPointerUp :: "'q pictureFrame \<Rightarrow> 'q pictureFrame" where
  "onWindowPointerUp st =
     (if isDragging st
      then st\<lparr>isDragging := False, bodyCursor := [],
              dragChanges := dragChanges st @ [False],
              windowListeners :=
                removeEventListener ''pointerup'' OnWindowPointerUp
                  (removeEventListener ''pointermove'' OnWindowPointerMove (windowListeners st))\<rparr>
      else st)"

text \<open>Lines 274-295.\<close>

definition handlePointerDown :: "real \<Rightarrow> real \<Rightarrow> 'q pictureFrame \<Rightarrow> 'q pictureFrame" where
  "handlePointerDown clientX clientY st =
     (if frameActive st
      then st\<lparr>isDragging := True, hasDragged := False, bodyCursor := ''grabbing'',
              dragChanges := dragChanges st @ [True],
              previousPointerPosition := (clientX, clientY),
              windowListeners :=
                addEventListener ''pointerup'' OnWindowPointerUp
                  (addEventListener ''pointermove'' OnWindowPointerMove (windowListeners st))\<rparr>
      else st)"

text \<open>Lines 297-308; the parent answers the call of \<open>onToggle\<close> with a new \<open>isActive\<close>.\<close>

definition handleClick :: "'q pictureFrame \<Rightarrow> 'q pictureFrame" where
  "handleClick st =
     (if \<not> hasDragged st then st\<lparr>toggles := Suc (toggles st)\<rparr> else st)\<lparr>hasDragged := False\<rparr>"

text \<open>
  What can happen to the component between frames.  A pointer event on \<open>window\<close> reaches
  a handler only while that handler is in the listener list.
\<close>

datatype event =
    SetActive bool
  | PointerOver
  | PointerOut
  | PointerDown real real
  | Click
  | WindowPointerMove real real
  | WindowPointerUp

fun dispatch :: "vec3 \<Rightarrow> 'q \<Rightarrow> 'q pictureFrame \<Rightarrow> event \<Rightarrow> 'q pictureFrame" where
  "dispatch dp dq st (SetActive b) = setActive dp dq b st"
| "dispatch dp dq st PointerOver = handlePointerOver st"
| "dispatch dp dq st PointerOut = handlePointerOut st"
| "dispatch dp dq st (PointerDown cx cy) = handlePointerDown cx cy st"
| "dispatch dp dq st Click = handleClick st"
| "dispatch dp dq st (WindowPointerMove cx cy) =
     (if (''pointermove'', OnWindowPointerMove) \<in> set (windowListeners st)
      then onWindowPointerMove cx cy st else st)"
| "dispatch dp dq st WindowPointerUp =
     (if (''pointerup'', OnWindowPointerUp) \<in> set (windowListeners st)
      then onWindowPointerUp st else st)"

text \<open>
  The component after its first render with \<open>isActive = false\<close>: the group sits at the
  origin with the identity quaternion \<open>q0\<close> until the mount effects put it at rest.
\<close>

definition mountedFrame :: "vec3 \<Rightarrow> 'q \<Rightarrow> 'q \<Rightarrow> 'q pictureFrame" where
  "mountedFrame defaultPosition defaultQuaternion q0 =
     deactivationEffect defaultPosition defaultQuaternion
       \<lparr>frameActive = False, isHovered = False, isDragging = False, hasDragged = False,
        previousPointerPosition = (0, 0), rotationOffset = vec 0 0 0,
        groupPosition = vec 0 0 0, groupQuaternion = q0, innerRotationX = 0,
        windowListeners = [], bodyCursor = [], dragChanges = [], toggles = 0\<rparr>"

subsection \<open>Pose smoothing (lines 164-224)\<close>

text \<open>
  The blend factors of lines 209-210 and 221.  \<open>Math.exp\<close> and the subtraction are taken
  over the reals.  In double precision \<open>1 - Math.exp(-delta * 12)\<close> rounds to exactly 1
  once \<open>delta\<close> is about 3.12 s or more (\<open>1 - Math.exp(-delta * 10)\<close> from about 4 s), a
  value the unclamped raw delta can take after the page was in the background; so of these
  factors only bounds that the rounded values also meet are stated below, the closed
  interval \<open>[0, 1]\<close>.
\<close>

definition lerpAlpha :: "real \<Rightarrow> real" where
  "lerpAlpha delta = 1 - exp (- delta * 12)"

definition slerpAlpha :: "real \<Rightarrow> real" where
  "slerpAlpha delta = 1 - exp (- delta * 10)"

text \<open>\<open>Vector3.lerp\<close> of three.js.\<close>

definition vec3lerp :: "vec3 \<Rightarrow> vec3 \<Rightarrow> real \<Rightarrow> vec3" where
  "vec3lerp a b alpha =
     vec (vx a + (vx b - vx a) * alpha) (vy a + (vy b - vy a) * alpha)
         (vz a + (vz b - vz a) * alpha)"

text \<open>
  The frame callback.  \<open>delta\<close> is the frame delta as the render host passes it.
  \<open>cameraPosition\<close> and \<open>cameraDirection\<close> are \<open>camera.position\<close> and
  \<open>camera.getWorldDirection\<close>; \<open>faceCamera\<close> is the quaternion three.js computes in lines
  183-199 from the target position, the camera position and the rotation offset;
  \<open>slerp\<close> is \<open>Quaternion.slerp\<close>.  \<open>mounted\<close> says that the group ref is set.
\<close>

definition pictureFrameTick ::
    "vec3 \<Rightarrow> 'q \<Rightarrow> (vec3 \<Rightarrow> vec3 \<Rightarrow> vec3 \<Rightarrow> 'q) \<Rightarrow> ('q \<Rightarrow> 'q \<Rightarrow> real \<Rightarrow> 'q) \<Rightarrow>
     vec3 \<Rightarrow> vec3 \<Rightarrow> bool \<Rightarrow> real \<Rightarrow> 'q pictureFrame \<Rightarrow> 'q pictureFrame" where
  "pictureFrameTick defaultPosition defaultQuaternion faceCamera slerp
       cameraPosition cameraDirection mounted delta st =
     (if \<not> mounted then st
      else
        let positionTarget =
              (if frameActive st
               then vec (vx cameraPosition + vx cameraDirection * FRAME_CAMERA_DISTANCE + 0)
                        (vy cameraPosition + vy cameraDirection * FRAME_CAMERA_DISTANCE
                           + (- (5 / 100)))
                        (vz cameraPosition + vz cameraDirection * FRAME_CAMERA_DISTANCE + 0)
               else if isHovered st
               then defaultPosition\<lparr>vy := vy defaultPosition + FRAME_HOVER_LIFT\<rparr>
               else defaultPosition);
            rotationTarget =
              (if frameActive st
               then faceCamera positionTarget cameraPosition (rotationOffset st)
               else defaultQuaternion);
            targetTilt = (if frameActive st then - FRAME_TILT else 0);
            currentTilt = innerRotationX st;
            newTilt = currentTilt + (targetTilt - currentTilt) * (1 - exp (- delta * 10))
        in st\<lparr>groupPosition := vec3lerp (groupPosition st) positionTarget (lerpAlpha delta),
               groupQuaternion := slerp (groupQuaternion st) rotationTarget (slerpAlpha delta),
               innerRotationX := newTilt\<rparr>)"

subsection \<open>Window listeners during a drag\<close>

text \<open>
  In every state the component can reach, a drag in progress has both window listeners
  attached, and no listener is in the list twice.
\<close>

lemmas frame_handlers =
  setActive_def deactivationEffect_def handlePointerOver_def handlePointerOut_def
  handlePointerDown_def handleClick_def onWindowPointerMove_def onWindowPointerUp_def
  addEventListener_def removeEventListener_def

lemma dragging_has_listeners:
  fixes st :: "'q pictureFrame"
  assumes "isDragging st \<longrightarrow>
       (''pointermove'', OnWindowPointerMove) \<in> set (windowListeners st) \<and>
       (''pointerup'', OnWindowPointerUp) \<in> set (windowListeners st)"
    and "distinct (windowListeners st)"
  shows "(isDragging (dispatch dp dq st e) \<longrightarrow>
       (''pointermove'', OnWindowPointerMove) \<in> set (windowListeners (dispatch dp dq st e)) \<and>
       (''pointerup'', OnWindowPointerUp) \<in> set (windowListeners (dispatch dp dq st e))) \<and>
     distinct (windowListeners (dispatch dp dq st e))"
  using assms by (cases e) (auto simp add: frame_handlers Let_def)

lemma reachable_dragging_has_listeners:
  fixes dq q0 :: 'q
  shows "(isDragging (foldl (dispatch dp dq) (mountedFrame dp dq q0) es) \<longrightarrow>
       (''pointermove'', OnWindowPointerMove) \<in>
          set (windowListeners (foldl (dispatch dp dq) (mountedFrame dp dq q0) es)) \<and>
       (''pointerup'', OnWindowPointerUp) \<in>
          set (windowListeners (foldl (dispatch dp dq) (mountedFrame dp dq q0) es))) \<and>
     distinct (windowListeners (foldl (dispatch dp dq) (mountedFrame dp dq q0) es))"
proof (induction es rule: rev_induct)
  case Nil
  then show ?case by (simp add: mountedFrame_def deactivationEffect_def)
next
  case (snoc e es)
  then show ?case
    using dragging_has_listeners[of "foldl (dispatch dp dq) (mountedFrame dp dq q0) es" dp dq e]
    by simp
qed

text \<open>
  Claim C3 asks for more: the listeners are to be attached only while the prop is
  dragging, also when the drag ends because \<open>isActive\<close> becomes false.  The code does not
  do that.  Activate the prop, press the pointer on it and let the parent deactivate it:
  the deactivation effect clears \<open>isDragging\<close> but leaves both listeners on \<open>window\<close>, and
  the pointer-up that follows finds \<open>isDragging\<close> clear and removes nothing.  When the
  pointer goes up before the deactivation, \<open>onWindowPointerUp\<close> removes both.
\<close>

theorem deactivation_mid_drag_keeps_listeners:
  "\<not> isDragging (foldl (dispatch (vec 0 0 0) ()) (mountedFrame (vec 0 0 0) () ())
        [SetActive True, PointerDown 0 0, SetActive False]) \<and>
   windowListeners (foldl (dispatch (vec 0 0 0) ()) (mountedFrame (vec 0 0 0) () ())
        [SetActive True, PointerDown 0 0, SetActive False]) =
     [(''pointermove'', OnWindowPointerMove), (''pointerup'', OnWindowPointerUp)] \<and>
   windowListeners (foldl (dispatch (vec 0 0 0) ()) (mountedFrame (vec 0 0 0) () ())
        [SetActive True, PointerDown 0 0, SetActive False, WindowPointerUp]) =
     [(''pointermove'', OnWindowPointerMove), (''pointerup'', OnWindowPointerUp)] \<and>
   windowListeners (foldl (dispatch (vec 0 0 0) ()) (mountedFrame (vec 0 0 0) () ())
        [SetActive True, PointerDown 0 0, WindowPointerUp, SetActive False]) = []"
  by (simp add: mountedFrame_def frame_handlers)

section \<open>Frame-delta clamping\<close>

text \<open>
  Claim C7, as stated, fails for the prop controller: its frame callback uses the delta
  of the render host as it comes.  With the prop active and the inner tilt at 0, a frame
  of 1 s and a frame of 0.05 s (what a clamp would make of it) give different tilts.
\<close>

theorem prop_delta_unclamped_counterexample:
  "innerRotationX
     (pictureFrameTick (vec 0 0 0) () (\<lambda>p c r. ()) (\<lambda>a b t. ()) (vec 0 0 0) (vec 0 0 1) True 1
        (setActive (vec 0 0 0) () True (mountedFrame (vec 0 0 0) () ()))) \<noteq>
   innerRotationX
     (pictureFrameTick (vec 0 0 0) () (\<lambda>p c r. ()) (\<lambda>a b t. ()) (vec 0 0 0) (vec 0 0 1) True
        (min 1 (5 / 100))
        (setActive (vec 0 0 0) () True (mountedFrame (vec 0 0 0) () ())))"
  by (simp add: pictureFrameTick_def mountedFrame_def setActive_def deactivationEffect_def
      Let_def FRAME_TILT_def)

lemma alpha_range: "0 \<le> d \<Longrightarrow> 0 \<le> k \<Longrightarrow> 0 \<le> 1 - exp (- d * k) \<and> 1 - exp (- d * k) \<le> (1::real)"
  by (simp add: mult_nonneg_nonneg)

text \<open>
  Claim C7, amended.  The firework simulation and the ambient sparkle field use
  \<open>min rawDelta 0.05\<close>: a frame with \<open>rawDelta\<close> is the frame with the clamped delta, which
  is at most 0.05.  The pose smoothing of the prop uses the raw delta, unclamped, and
  only through the blend factors \<open>1 - exp (- 12 delta)\<close> (position) and
  \<open>1 - exp (- 10 delta)\<close> (orientation and tilt), which lie in \<open>[0, 1]\<close> for every delta
  that is not negative (the value 1 is taken in double precision for a delta of a few
  seconds, where the pose jumps to its target).
\<close>

theorem delta_clamping:
  fixes pf :: "'q pictureFrame" and dp cp cd :: vec3 and dq :: 'q
    and faceCamera :: "vec3 \<Rightarrow> vec3 \<Rightarrow> vec3 \<Rightarrow> 'q" and slerp :: "'q \<Rightarrow> 'q \<Rightarrow> real \<Rightarrow> 'q"
  defines "pf' \<equiv> \<lambda>delta. pictureFrameTick dp dq faceCamera slerp cp cd True delta pf"
  shows "fireworksFrame m a rawDelta rnd origin fw =
           fireworksFrame m a (min rawDelta (5 / 100)) rnd origin fw \<and>
         sparklesFrame m a rawDelta now rnd sp =
           sparklesFrame m a (min rawDelta (5 / 100)) now rnd sp \<and>
         min rawDelta (5 / 100) \<le> 5 / 100 \<and>
         groupPosition (pf' rawDelta) =
           vec3lerp (groupPosition pf)
             (if frameActive pf
              then vec (vx cp + vx cd * FRAME_CAMERA_DISTANCE + 0)
                       (vy cp + vy cd * FRAME_CAMERA_DISTANCE + (- (5 / 100)))
                       (vz cp + vz cd * FRAME_CAMERA_DISTANCE + 0)
              else if isHovered pf then dp\<lparr>vy := vy dp + FRAME_HOVER_LIFT\<rparr> else dp)
             (1 - exp (- rawDelta * 12)) \<and>
         innerRotationX (pf' rawDelta) =
           innerRotationX pf +
             ((if frameActive pf then - FRAME_TILT else 0) - innerRotationX pf) *
               (1 - exp (- rawDelta * 10)) \<and>
         (0 \<le> rawDelta \<longrightarrow>
            0 \<le> lerpAlpha rawDelta \<and> lerpAlpha rawDelta \<le> 1 \<and>
            0 \<le> slerpAlpha rawDelta \<and> slerpAlpha rawDelta \<le> 1)"
proof -
  have "0 \<le> lerpAlpha rawDelta \<and> lerpAlpha rawDelta \<le> 1 \<and>
            0 \<le> slerpAlpha rawDelta \<and> slerpAlpha rawDelta \<le> 1" if "0 \<le> rawDelta"
    using alpha_range[OF that, of 12] alpha_range[OF that, of 10]
    by (simp add: lerpAlpha_def slerpAlpha_def)
  then show ?thesis
    by (simp add: fireworksFrame_def sparklesFrame_def pf'_def pictureFrameTick_def Let_def
        lerpAlpha_def)
qed

theorem delta_clamping_witness:
  "(0::real) \<le> 1 \<and> 0 \<le> lerpAlpha 1 \<and> lerpAlpha 1 \<le> 1 \<and> 0 \<le> slerpAlpha 1 \<and> slerpAlpha 1 \<le> 1 \<and>
   fireworksFrame True True 1 (\<lambda>k. 1 / 2) (vec (- 10) 6 0) initialFireworks =
     fireworksFrame True True (min 1 (5 / 100)) (\<lambda>k. 1 / 2) (vec (- 10) 6 0) initialFireworks"
proof -
  note t = delta_clamping[of True True 1 "\<lambda>k. 1 / 2" "vec (- 10) 6 0" initialFireworks
      "\<lambda>i. 0" "initSparkles (\<lambda>k. 1 / 2) 0" "vec 0 0 0" "()" "\<lambda>p c r. ()" "\<lambda>a b t. ()"
      "vec 0 0 0" "vec 0 0 1" "mountedFrame (vec 0 0 0) () ()"]
  have h: "(0::real) \<le> 1" by simp
  note a = t[THEN conjunct1]
  note b = t[THEN conjunct2, THEN conjunct2, THEN conjunct2, THEN conjunct2, THEN conjunct2,
      THEN mp, OF h]
  show ?thesis
    using h a b[THEN conjunct1] b[THEN conjunct2, THEN conjunct1]
      b[THEN conjunct2, THEN conjunct2, THEN conjunct1]
      b[THEN conjunct2, THEN conjunct2, THEN conjunct2]
    by - (intro conjI, assumption+)
qed

end
